theory Spec2Isabelle
  imports Main
begin

section \<open>Strings of the host language\<close>

text \<open>
  A string of the program is a sequence of UTF-16 code units. The labels of the mail bodies
  are Japanese, so a code unit is modelled as a natural number and a string as a list of
  them; \<open>str\<close> embeds an ASCII literal.
\<close>

type_synonym jschar = nat
type_synonym jsstring = "nat list"

definition str :: "string \<Rightarrow> jsstring" where
  "str cs = map of_char cs"

text \<open>The character classes used by the regular expressions of \<open>main.ts\<close>.\<close>

definition is_digit :: "jschar \<Rightarrow> bool" where
  "is_digit c = (48 \<le> c \<and> c \<le> 57)"

text \<open>The class \<^verbatim>\<open>\s\<close>: the white space and line terminator code units of ECMAScript.\<close>

definition is_space :: "jschar \<Rightarrow> bool" where
  "is_space c = (c = 9 \<or> c = 10 \<or> c = 11 \<or> c = 12 \<or> c = 13 \<or> c = 32 \<or> c = 160
     \<or> c = 5760 \<or> (8192 \<le> c \<and> c \<le> 8202) \<or> c = 8232 \<or> c = 8233 \<or> c = 8239
     \<or> c = 8287 \<or> c = 12288 \<or> c = 65279)"

text \<open>The dot (no \<open>s\<close> flag): every code unit but the four line terminators.\<close>

definition is_dot :: "jschar \<Rightarrow> bool" where
  "is_dot c = (c \<noteq> 10 \<and> c \<noteq> 13 \<and> c \<noteq> 8232 \<and> c \<noteq> 8233)"

datatype cls = Digit | Space | Dot | DigitComma

fun in_cls :: "cls \<Rightarrow> jschar \<Rightarrow> bool" where
  "in_cls Digit c = is_digit c"
| "in_cls Space c = is_space c"
| "in_cls Dot c = is_dot c"
| "in_cls DigitComma c = (is_digit c \<or> c = 44)"

text \<open>\<open>String.prototype.trim\<close> strips white space and line terminators at both ends.\<close>

definition trim :: "jsstring \<Rightarrow> jsstring" where
  "trim s = rev (dropWhile is_space (rev (dropWhile is_space s)))"

text \<open>
  \<open>String.prototype.padStart\<close>: a string already as long as the target is returned as it
  is, otherwise the filler is repeated and cut to the missing length.
\<close>

definition padStart :: "nat \<Rightarrow> jsstring \<Rightarrow> jsstring \<Rightarrow> jsstring" where
  "padStart n fill s =
     (if n \<le> length s \<or> fill = [] then s
      else take (n - length s) (concat (replicate (n - length s) fill)) @ s)"

section \<open>Regular expressions with backtracking\<close>

text \<open>
  The fragment of the regular expressions that the program uses: literals, greedy bounded
  or unbounded repetition of a character class, capture groups and sequencing.
\<close>

datatype rx =
    Lit jsstring
  | Rep cls nat "nat option"
  | Grp nat rx
  | Seq rx rx

type_synonym captures = "nat \<rightharpoonup> jsstring"

text \<open>
  \<open>run r s c\<close> lists, in the order in which a backtracking matcher tries them, every way
  of matching \<open>r\<close> at the start of \<open>s\<close>: the unconsumed rest and the captures. A greedy
  repetition tries the longest run first.
\<close>

fun run :: "rx \<Rightarrow> jsstring \<Rightarrow> captures \<Rightarrow> (jsstring \<times> captures) list" where
  "run (Lit l) s c = (if take (length l) s = l then [(drop (length l) s, c)] else [])"
| "run (Rep k lo hi) s c =
     (let avail = length (takeWhile (in_cls k) s);
          m = (case hi of None \<Rightarrow> avail | Some h \<Rightarrow> min h avail)
      in map (\<lambda>n. (drop n s, c)) (rev [lo ..< Suc m]))"
| "run (Grp g r) s c =
     map (\<lambda>(rest, c'). (rest, c'(g \<mapsto> take (length s - length rest) s))) (run r s c)"
| "run (Seq a b) s c = concat (map (\<lambda>(rest, c'). run b rest c') (run a s c))"

text \<open>
  \<open>String.prototype.match\<close> with a regular expression without the \<open>g\<close> flag: the first
  start position at which the expression matches, and there the first way the matcher
  finds. Index 0 of the result is the whole match, index \<open>n\<close> is group \<open>n\<close>.
\<close>

fun match :: "rx \<Rightarrow> jsstring \<Rightarrow> captures option" where
  "match r [] =
     (case run r [] Map.empty of
        [] \<Rightarrow> None
      | (rest, c) # _ \<Rightarrow> Some (c(0 \<mapsto> [])))"
| "match r (x # xs) =
     (case run r (x # xs) Map.empty of
        [] \<Rightarrow> match r xs
      | (rest, c) # _ \<Rightarrow> Some (c(0 \<mapsto> take (length (x # xs) - length rest) (x # xs))))"

text \<open>The language of an expression: the words it can consume.\<close>

fun lang :: "rx \<Rightarrow> jsstring set" where
  "lang (Lit l) = {l}"
| "lang (Rep k lo hi) =
     {w. lo \<le> length w \<and> (case hi of None \<Rightarrow> True | Some h \<Rightarrow> length w \<le> h)
         \<and> (\<forall>x \<in> set w. in_cls k x)}"
| "lang (Grp g r) = lang r"
| "lang (Seq a b) = {u @ v | u v. u \<in> lang a \<and> v \<in> lang b}"

section \<open>DateUtils\<close>

datatype error = TypeError | SheetNotFound jsstring | PlatformError jsstring

text \<open>
  \<open>/(\d{4})\/(\d{1,2})\/(\d{1,2})\s+(\d{1,2}):(\d{1,2}):(\d{1,2})/\<close>
\<close>

definition date_rx :: rx where
  "date_rx =
     Seq (Grp 1 (Rep Digit 4 (Some 4)))
    (Seq (Lit [47])
    (Seq (Grp 2 (Rep Digit 1 (Some 2)))
    (Seq (Lit [47])
    (Seq (Grp 3 (Rep Digit 1 (Some 2)))
    (Seq (Rep Space 1 None)
    (Seq (Grp 4 (Rep Digit 1 (Some 2)))
    (Seq (Lit [58])
    (Seq (Grp 5 (Rep Digit 1 (Some 2)))
    (Seq (Lit [58])
         (Grp 6 (Rep Digit 1 (Some 2))))))))))))"

text \<open>
  Reading a group of a match result. A group that did not take part in the match is
  \<open>undefined\<close>, and calling a string method on it throws a \<open>TypeError\<close>.
\<close>

definition group :: "captures \<Rightarrow> nat \<Rightarrow> error + jsstring" where
  "group m n = (case m n of None \<Rightarrow> Inl TypeError | Some g \<Rightarrow> Inr g)"

text \<open>\<open>DateUtils.normalize\<close>\<close>

definition normalize :: "jsstring \<Rightarrow> error + jsstring" where
  "normalize dateString =
     (case match date_rx dateString of
        None \<Rightarrow> Inr dateString
      | Some m \<Rightarrow>
          (case (group m 1, group m 2, group m 3, group m 4, group m 5, group m 6) of
             (Inr year, Inr month, Inr day, Inr hour, Inr minute, Inr second) \<Rightarrow>
               Inr (year @ [47] @ padStart 2 [48] month @ [47] @ padStart 2 [48] day @ [32]
                    @ padStart 2 [48] hour @ [58] @ padStart 2 [48] minute @ [58]
                    @ padStart 2 [48] second)
           | _ \<Rightarrow> Inl TypeError))"

text \<open>
  \<open>DateUtils.parseDate\<close>: \<open>new Date(dateString)\<close> parses in a way the host decides; the
  parameter \<open>new_Date\<close> gives the time value, or \<open>None\<close> when it is \<open>NaN\<close>.
\<close>

type_synonym js_date = int

definition parseDate :: "(jsstring \<Rightarrow> js_date option) \<Rightarrow> jsstring \<Rightarrow> js_date option" where
  "parseDate new_Date dateString =
     (case new_Date dateString of None \<Rightarrow> None | Some t \<Rightarrow> Some t)"

section \<open>Numbers\<close>

text \<open>
  A \<open>number\<close> of the program is an IEEE 754 double. The values \<open>parseInt\<close> can return
  are \<open>NaN\<close>, an integer that a double represents, and the infinities (minus zero is
  identified with zero).
\<close>

datatype number = NaN | Num int | PosInfinity | NegInfinity

fun bitlen :: "nat \<Rightarrow> nat" where
  "bitlen n = (if n = 0 then 0 else Suc (bitlen (n div 2)))"

declare bitlen.simps [simp del]

text \<open>
  The double nearest to a natural number: exact below \<open>2 ^ 53\<close>; above, the number is
  rounded to 53 significant bits, a tie going to the even significand, and a result of
  \<open>2 ^ 1024\<close> or more is \<open>Infinity\<close>.
\<close>

definition to_double :: "nat \<Rightarrow> number" where
  "to_double n =
     (if n < 2 ^ 53 then Num (int n)
      else
        let e = bitlen n - 53;
            q = n div 2 ^ e;
            r = n mod 2 ^ e;
            half = 2 ^ (e - 1);
            q' = (if half < r \<or> (r = half \<and> odd q) then q + 1 else q);
            v = q' * 2 ^ e
        in if 2 ^ 1024 \<le> v then PosInfinity else Num (int v))"

definition dec_value :: "jsstring \<Rightarrow> nat" where
  "dec_value ds = foldl (\<lambda>a c. 10 * a + (c - 48)) 0 ds"

text \<open>
  \<open>parseInt(s, 10)\<close>: leading white space is skipped, a sign is read, then the longest
  run of decimal digits; without a digit the result is \<open>NaN\<close>.
\<close>

definition parseInt10 :: "jsstring \<Rightarrow> number" where
  "parseInt10 s =
     (let t = dropWhile is_space s;
          neg = (case t of [] \<Rightarrow> False | c # _ \<Rightarrow> c = 45);
          u = (case t of [] \<Rightarrow> [] | c # r \<Rightarrow> if c = 45 \<or> c = 43 then r else t);
          ds = takeWhile is_digit u
      in if ds = [] then NaN
         else (case to_double (dec_value ds) of
                 Num v \<Rightarrow> Num (if neg then - v else v)
               | PosInfinity \<Rightarrow> (if neg then NegInfinity else PosInfinity)
               | other \<Rightarrow> other))"

section \<open>Splitting strings\<close>

text \<open>\<open>s.split(' ')\<close>: the pieces of \<open>s\<close> between the occurrences of one code unit.\<close>

fun split_char :: "jschar \<Rightarrow> jsstring \<Rightarrow> jsstring list" where
  "split_char sep [] = [[]]"
| "split_char sep (x # xs) =
     (if x = sep then [] # split_char sep xs
      else (case split_char sep xs of [] \<Rightarrow> [[x]] | h # t \<Rightarrow> (x # h) # t))"

text \<open>
  \<open>s.split(r)\<close> for an expression \<open>r\<close> without capture groups. \<open>acc\<close> is the current
  piece, reversed. At each position the expression is tried there only; a non-empty
  match closes the piece and the scan goes on after the match; an empty match closes a
  non-empty piece and the scan moves one code unit on.
\<close>

function split_from :: "rx \<Rightarrow> jsstring \<Rightarrow> jsstring \<Rightarrow> jsstring list" where
  "split_from r acc [] = [rev acc]"
| "split_from r acc (x # xs) =
     (case run r (x # xs) Map.empty of
        [] \<Rightarrow> split_from r (x # acc) xs
      | (rest, c) # _ \<Rightarrow>
          if length rest < length (x # xs) then rev acc # split_from r [] rest
          else if acc = [] then split_from r [x] xs
          else rev acc # split_from r [x] xs)"
  by pat_completeness auto
termination
  by (relation "measure (\<lambda>(r, acc, s). length s)") auto

definition split_rx :: "rx \<Rightarrow> jsstring \<Rightarrow> jsstring list" where
  "split_rx r s =
     (if s = [] then (if run r [] Map.empty = [] then [[]] else [])
      else split_from r [] s)"

section \<open>GmailService.extractDonationDetails\<close>

record DonationDetails =
  date :: jsstring
  name :: jsstring
  amount :: number
  frequency :: jsstring

text \<open>
  The four patterns. The labels are written as their code units; each ends with an ASCII
  colon (58), and the amount ends with the yen sign U+5186 (20870).
\<close>

definition date_pattern :: rx where
  "date_pattern =
     Seq (Lit [25903, 25588, 21463, 20184, 26085, 26178, 58])
    (Seq (Rep Space 0 None) (Grp 1 (Rep Dot 1 None)))"

definition name_pattern :: rx where
  "name_pattern =
     Seq (Lit [25903, 25588, 20184, 32773, 21517, 58])
    (Seq (Rep Space 0 None) (Grp 1 (Rep Dot 1 None)))"

definition amount_pattern :: rx where
  "amount_pattern =
     Seq (Lit [25903, 25588, 37329, 38989, 58])
    (Seq (Rep Space 0 None)
    (Seq (Grp 1 (Rep DigitComma 1 None))
    (Seq (Rep Space 0 None) (Lit [20870]))))"

definition frequency_pattern :: rx where
  "frequency_pattern =
     Seq (Lit [25903, 25588, 38971, 24230, 58])
    (Seq (Rep Space 0 None) (Grp 1 (Rep Dot 1 None)))"

text \<open>\<open>/\s{2,}/\<close>, the separator that cuts the supporter name.\<close>

definition space_run :: rx where
  "space_run = Rep Space 2 None"

text \<open>\<open>replace(/,/g, '')\<close>\<close>

definition remove_commas :: "jsstring \<Rightarrow> jsstring" where
  "remove_commas s = filter (\<lambda>c. c \<noteq> 44) s"

text \<open>Element 0 of an array; on an empty array it is \<open>undefined\<close>, and the call of
  \<open>trim\<close> on it throws.\<close>

definition first_piece :: "jsstring list \<Rightarrow> error + jsstring" where
  "first_piece ps = (case ps of [] \<Rightarrow> Inl TypeError | p # _ \<Rightarrow> Inr p)"

definition extractDonationDetails :: "jsstring \<Rightarrow> error + DonationDetails option" where
  "extractDonationDetails body =
     (case (match date_pattern body, match name_pattern body,
            match amount_pattern body, match frequency_pattern body) of
        (Some md, Some mn, Some ma, Some mf) \<Rightarrow>
          (case group md 1 of Inl e \<Rightarrow> Inl e | Inr rawDate \<Rightarrow>
          (case normalize (trim rawDate) of Inl e \<Rightarrow> Inl e | Inr normalizedDate \<Rightarrow>
          (case group ma 1 of Inl e \<Rightarrow> Inl e | Inr amountText \<Rightarrow>
             (let amt = parseInt10 (remove_commas (trim amountText)) in
              if amt = NaN then Inr None
              else
                (case group mn 1 of Inl e \<Rightarrow> Inl e | Inr nameText \<Rightarrow>
                (case first_piece (split_rx space_run nameText) of Inl e \<Rightarrow> Inl e | Inr n0 \<Rightarrow>
                (case group mf 1 of Inl e \<Rightarrow> Inl e | Inr freqText \<Rightarrow>
                (case first_piece (split_char 32 freqText) of Inl e \<Rightarrow> Inl e | Inr f0 \<Rightarrow>
                   Inr (Some \<lparr>date = normalizedDate, name = trim n0, amount = amt,
                              frequency = trim f0\<rparr>)))))))))
      | _ \<Rightarrow> Inr None)"

section \<open>The host platform\<close>

text \<open>
  The mailbox, the spreadsheet, the webhook client and the console are services of the
  host. The model records every call the program issues to them, the console output and
  the rows of the sheet that the configured spreadsheet id and sheet name denote
  (\<open>None\<close> when there is no such sheet).
\<close>

record AppConfig =
  slackWebhookUrl :: "jsstring option"
  spreadsheetId :: "jsstring option"
  sheetName :: "jsstring option"

text \<open>The fields of the payload are \<open>date\<close>, \<open>amount\<close> and \<open>frequency\<close> in the source.\<close>

record SlackWorkflowPayload =
  payload_date :: jsstring
  payload_amount :: jsstring
  payload_frequency :: jsstring

datatype cell = DateCell js_date | StrCell jsstring | NumCell number

text \<open>A message of the mailbox: its id and what \<open>getPlainBody\<close> returns or throws.\<close>

record message =
  msg_id :: jsstring
  msg_body :: "error + jsstring"

datatype call =
    GetScriptProperties
  | GetProperty jsstring
  | Search
  | GetPlainBody jsstring
  | Fetch jsstring SlackWorkflowPayload
  | OpenById jsstring jsstring
  | GetLastRow
  | AppendRow "cell list"
  | GetMessageById jsstring
  | MarkRead jsstring

datatype log_entry =
    Warn_extract_failed jsstring
  | Error_message error
  | Log_slack_sent jsstring number jsstring
  | Error_slack error
  | Log_recorded jsstring number
  | Error_record error
  | Error_getSheet error
  | Log_header_added
  | Error_headers error
  | Warn_no_webhook
  | Log_check_start
  | Log_check_done
  | Error_check error
  | Log_processing DonationDetails
  | Log_processed jsstring
  | Error_processing jsstring error

record world =
  calls :: "call list"
  console :: "log_entry list"
  sheet :: "cell list list option"

text \<open>
  What the host answers is a parameter of the model: which calls throw (and what), what
  the script properties hold, what the search finds, how a number is printed and how a
  date string is parsed. The answers may depend on everything that happened before.
\<close>

record platform =
  properties_error :: "world \<Rightarrow> error option"
  property_result :: "world \<Rightarrow> jsstring \<Rightarrow> error + jsstring option"
  search_result :: "world \<Rightarrow> error + message list list"
  fetch_error :: "world \<Rightarrow> jsstring \<Rightarrow> SlackWorkflowPayload \<Rightarrow> error option"
  open_error :: "world \<Rightarrow> jsstring \<Rightarrow> jsstring \<Rightarrow> error option"
  lastRow_error :: "world \<Rightarrow> error option"
  append_error :: "world \<Rightarrow> cell list \<Rightarrow> error option"
  getMessage_error :: "world \<Rightarrow> jsstring \<Rightarrow> error option"
  markRead_error :: "world \<Rightarrow> jsstring \<Rightarrow> error option"
  toLocaleString :: "number \<Rightarrow> jsstring"
  new_Date :: "jsstring \<Rightarrow> js_date option"

text \<open>
  A statement either completes with a value or throws; in both cases the effects it had
  until then stay.
\<close>

datatype 'a outcome = Return 'a | Throw error

type_synonym 'a action = "world \<Rightarrow> 'a outcome \<times> world"

definition ret :: "'a \<Rightarrow> 'a action" where
  "ret x w = (Return x, w)"

definition throw :: "error \<Rightarrow> 'a action" where
  "throw e w = (Throw e, w)"

definition and_then :: "'a action \<Rightarrow> ('a \<Rightarrow> 'b action) \<Rightarrow> 'b action" where
  "and_then a f w = (case a w of (Return x, w1) \<Rightarrow> f x w1 | (Throw e, w1) \<Rightarrow> (Throw e, w1))"

definition then_do :: "'a action \<Rightarrow> 'b action \<Rightarrow> 'b action" where
  "then_do a b = and_then a (\<lambda>_. b)"

definition try_catch :: "'a action \<Rightarrow> (error \<Rightarrow> 'a action) \<Rightarrow> 'a action" where
  "try_catch a h w = (case a w of (Return x, w1) \<Rightarrow> (Return x, w1) | (Throw e, w1) \<Rightarrow> h e w1)"

definition log_line :: "log_entry \<Rightarrow> unit action" where
  "log_line entry w = (Return (), w\<lparr>console := console w @ [entry]\<rparr>)"

text \<open>A call of a host service: it is recorded, then it completes or throws.\<close>

definition invoke :: "call \<Rightarrow> (world \<Rightarrow> error option) \<Rightarrow> unit action" where
  "invoke c fails w =
     (case fails w of
        None \<Rightarrow> (Return (), w\<lparr>calls := calls w @ [c]\<rparr>)
      | Some e \<Rightarrow> (Throw e, w\<lparr>calls := calls w @ [c]\<rparr>))"

text \<open>A \<^verbatim>\<open>for (... of ...)\<close> loop: a throw in the body leaves the loop.\<close>

fun for_each :: "'a list \<Rightarrow> ('a \<Rightarrow> unit action) \<Rightarrow> unit action" where
  "for_each [] body = ret ()"
| "for_each (x # xs) body = then_do (body x) (for_each xs body)"

section \<open>ConfigService\<close>

text \<open>
  \<open>loadConfig\<close>, called by the constructor: \<open>PropertiesService.getScriptProperties()\<close>
  and three calls of \<open>getProperty\<close>, none of them inside a \<open>try\<close>. A key that is not set
  gives \<open>null\<close>.
\<close>

definition getProperty :: "platform \<Rightarrow> jsstring \<Rightarrow> jsstring option action" where
  "getProperty P key w =
     (case property_result P w key of
        Inl e \<Rightarrow> (Throw e, w\<lparr>calls := calls w @ [GetProperty key]\<rparr>)
      | Inr v \<Rightarrow> (Return v, w\<lparr>calls := calls w @ [GetProperty key]\<rparr>))"

definition loadConfig :: "platform \<Rightarrow> AppConfig action" where
  "loadConfig P =
     then_do (invoke GetScriptProperties (properties_error P))
       (and_then (getProperty P (str ''SLACK_WEBHOOK_URL'')) (\<lambda>url.
        and_then (getProperty P (str ''GOOGLE_SHEETS_ID'')) (\<lambda>sid.
        and_then (getProperty P (str ''GOOGLE_SHEETS_NAME'')) (\<lambda>sname.
          ret \<lparr>slackWebhookUrl = url, spreadsheetId = sid, sheetName = sname\<rparr>))))"

text \<open>\<open>Boolean(v)\<close> of a string or \<open>null\<close>: \<open>null\<close> and the empty string are false.\<close>

definition truthy :: "jsstring option \<Rightarrow> bool" where
  "truthy v = (case v of None \<Rightarrow> False | Some s \<Rightarrow> s \<noteq> [])"

definition isConfigValid :: "AppConfig \<Rightarrow> bool" where
  "isConfigValid config = truthy (slackWebhookUrl config)"

definition isSheetsConfigValid :: "AppConfig \<Rightarrow> bool" where
  "isSheetsConfigValid config = (truthy (spreadsheetId config) \<and> truthy (sheetName config))"

section \<open>SlackService\<close>

definition sendDonationNotification ::
    "platform \<Rightarrow> jsstring \<Rightarrow> jsstring \<Rightarrow> number \<Rightarrow> jsstring \<Rightarrow> unit action" where
  "sendDonationNotification P webhookUrl d a f =
     (let payload = \<lparr>payload_date = d, payload_amount = toLocaleString P a @ [20870],
                     payload_frequency = f\<rparr>
      in try_catch
           (then_do (invoke (Fetch webhookUrl payload) (\<lambda>w. fetch_error P w webhookUrl payload))
                    (log_line (Log_slack_sent d a f)))
           (\<lambda>e. then_do (log_line (Error_slack e)) (throw e)))"

section \<open>SheetsService\<close>

text \<open>
  \<open>getSheet\<close> returns the sheet or \<open>null\<close>; the model returns whether a sheet was
  obtained. \<open>openById\<close> followed by \<open>getSheetByName\<close> is one call of the host.
\<close>

definition getSheet :: "platform \<Rightarrow> jsstring \<times> jsstring \<Rightarrow> bool action" where
  "getSheet P svc =
     try_catch
       (and_then (invoke (OpenById (fst svc) (snd svc)) (\<lambda>w. open_error P w (fst svc) (snd svc)))
                 (\<lambda>_ w. (Return (sheet w \<noteq> None), w)))
       (\<lambda>e. then_do (log_line (Error_getSheet e)) (ret False))"

definition getLastRow :: "platform \<Rightarrow> nat action" where
  "getLastRow P =
     and_then (invoke GetLastRow (lastRow_error P))
              (\<lambda>_ w. (Return (case sheet w of None \<Rightarrow> 0 | Some rows \<Rightarrow> length rows), w))"

definition appendRow :: "platform \<Rightarrow> cell list \<Rightarrow> unit action" where
  "appendRow P row =
     and_then (invoke (AppendRow row) (\<lambda>w. append_error P w row))
              (\<lambda>_ w. (Return (), w\<lparr>sheet := map_option (\<lambda>rows. rows @ [row]) (sheet w)\<rparr>))"

definition recordDonation ::
    "platform \<Rightarrow> jsstring \<times> jsstring \<Rightarrow> jsstring \<Rightarrow> jsstring \<Rightarrow> number \<Rightarrow> jsstring \<Rightarrow> unit action" where
  "recordDonation P svc d n a f =
     try_catch
       (and_then (getSheet P svc) (\<lambda>found.
          if \<not> found then throw (SheetNotFound (snd svc))
          else
            (let dateValue = (case parseDate (new_Date P) d of
                                Some parsedDate \<Rightarrow> DateCell parsedDate
                              | None \<Rightarrow> StrCell d)
             in then_do (appendRow P [dateValue, StrCell n, NumCell a, StrCell f])
                        (log_line (Log_recorded n a)))))
       (\<lambda>e. then_do (log_line (Error_record e)) (throw e))"

text \<open>The header row: the four column titles, as code units.\<close>

definition header_row :: "cell list" where
  "header_row = [StrCell [26085, 26178], StrCell [23492, 20184, 32773, 21517],
                 StrCell [37329, 38989], StrCell [38971, 24230]]"

definition ensureHeaders :: "platform \<Rightarrow> jsstring \<times> jsstring \<Rightarrow> unit action" where
  "ensureHeaders P svc =
     try_catch
       (and_then (getSheet P svc) (\<lambda>found.
          if \<not> found then ret ()
          else and_then (getLastRow P) (\<lambda>lastRow.
                 if lastRow = 0
                 then then_do (appendRow P header_row) (log_line Log_header_added)
                 else ret ())))
       (\<lambda>e. log_line (Error_headers e))"

section \<open>GmailService.processNewDonations\<close>

text \<open>
  The body of the loop: one message. \<open>GmailApp.search\<close> and
  \<open>getMessagesForThreads\<close> are one call of the host, outside any \<open>try\<close>.
\<close>

definition getPlainBody :: "message \<Rightarrow> jsstring action" where
  "getPlainBody m w =
     (case msg_body m of
        Inl e \<Rightarrow> (Throw e, w\<lparr>calls := calls w @ [GetPlainBody (msg_id m)]\<rparr>)
      | Inr b \<Rightarrow> (Return b, w\<lparr>calls := calls w @ [GetPlainBody (msg_id m)]\<rparr>))"

definition process_message ::
    "(DonationDetails \<Rightarrow> jsstring \<Rightarrow> unit action) \<Rightarrow> message \<Rightarrow> unit action" where
  "process_message onDonationFound m =
     try_catch
       (and_then (getPlainBody m) (\<lambda>body.
          case extractDonationDetails body of
            Inl e \<Rightarrow> throw e
          | Inr (Some details) \<Rightarrow> onDonationFound details (msg_id m)
          | Inr None \<Rightarrow> log_line (Warn_extract_failed (msg_id m))))
       (\<lambda>e. log_line (Error_message e))"

definition gmail_search :: "platform \<Rightarrow> message list list action" where
  "gmail_search P w =
     (case search_result P w of
        Inl e \<Rightarrow> (Throw e, w\<lparr>calls := calls w @ [Search]\<rparr>)
      | Inr threads \<Rightarrow> (Return threads, w\<lparr>calls := calls w @ [Search]\<rparr>))"

definition processNewDonations ::
    "platform \<Rightarrow> (DonationDetails \<Rightarrow> jsstring \<Rightarrow> unit action) \<Rightarrow> unit action" where
  "processNewDonations P onDonationFound =
     and_then (gmail_search P) (\<lambda>threads.
       for_each (concat threads) (process_message onDonationFound))"

section \<open>DonationNotifierApp\<close>

record DonationNotifierApp =
  configService :: AppConfig
  slackService :: "jsstring option"
  sheetsService :: "(jsstring \<times> jsstring) option"

text \<open>
  \<open>initializeServices\<close>, on the configuration the constructor has loaded: a service
  stays \<open>null\<close> when its settings are missing or empty, and a new sheets service checks
  the header row at once.
\<close>

definition initializeServices :: "platform \<Rightarrow> AppConfig \<Rightarrow> DonationNotifierApp action" where
  "initializeServices P config =
     (let slack = (if truthy (slackWebhookUrl config) then slackWebhookUrl config else None) in
      case (spreadsheetId config, sheetName config) of
        (Some sid, Some sname) \<Rightarrow>
          if sid \<noteq> [] \<and> sname \<noteq> []
          then then_do (ensureHeaders P (sid, sname))
                 (ret \<lparr>configService = config, slackService = slack,
                       sheetsService = Some (sid, sname)\<rparr>)
          else ret \<lparr>configService = config, slackService = slack, sheetsService = None\<rparr>
      | _ \<Rightarrow> ret \<lparr>configService = config, slackService = slack, sheetsService = None\<rparr>)"

text \<open>
  \<open>GmailApp.getMessageById(messageId).markRead()\<close>: the message is looked up, then
  \<open>markRead\<close> is called on it. When the lookup throws, \<open>markRead\<close> is not called.
\<close>

definition markRead :: "platform \<Rightarrow> jsstring \<Rightarrow> unit action" where
  "markRead P messageId =
     then_do (invoke (GetMessageById messageId) (\<lambda>w. getMessage_error P w messageId))
             (invoke (MarkRead messageId) (\<lambda>w. markRead_error P w messageId))"

text \<open>The two guarded calls of the sinks in \<open>processDonation\<close>.\<close>

definition notify_step :: "platform \<Rightarrow> DonationNotifierApp \<Rightarrow> DonationDetails \<Rightarrow> unit action" where
  "notify_step P app details =
     (case slackService app of
        Some url \<Rightarrow>
          sendDonationNotification P url (date details) (amount details) (frequency details)
      | None \<Rightarrow> ret ())"

definition record_step :: "platform \<Rightarrow> DonationNotifierApp \<Rightarrow> DonationDetails \<Rightarrow> unit action" where
  "record_step P app details =
     (case sheetsService app of
        Some svc \<Rightarrow>
          recordDonation P svc (date details) (name details) (amount details)
            (frequency details)
      | None \<Rightarrow> ret ())"

definition processDonation ::
    "platform \<Rightarrow> DonationNotifierApp \<Rightarrow> DonationDetails \<Rightarrow> jsstring \<Rightarrow> unit action" where
  "processDonation P app details messageId =
     then_do (log_line (Log_processing details))
       (try_catch
          (then_do (notify_step P app details)
          (then_do (record_step P app details)
          (then_do (markRead P messageId) (log_line (Log_processed messageId)))))
          (\<lambda>e. log_line (Error_processing messageId e)))"

definition checkForNewDonations :: "platform \<Rightarrow> DonationNotifierApp \<Rightarrow> unit action" where
  "checkForNewDonations P app =
     (if \<not> isConfigValid (configService app) then log_line Warn_no_webhook
      else
        then_do (log_line Log_check_start)
          (try_catch
             (then_do (processNewDonations P (processDonation P app)) (log_line Log_check_done))
             (\<lambda>e. log_line (Error_check e))))"

text \<open>
  The constructor of the application: the configuration service loads the configuration,
  then the services are built. No \<open>try\<close> surrounds it.
\<close>

definition new_DonationNotifierApp :: "platform \<Rightarrow> DonationNotifierApp action" where
  "new_DonationNotifierApp P = and_then (loadConfig P) (\<lambda>config. initializeServices P config)"

text \<open>The global function \<open>checkForNewDonations\<close>: a new application, then its check.\<close>

definition main :: "platform \<Rightarrow> unit action" where
  "main P = and_then (new_DonationNotifierApp P) (\<lambda>app. checkForNewDonations P app)"

section \<open>What a match means\<close>

text \<open>
  \<open>sem r w c c'\<close>: the expression \<open>r\<close> consumes exactly the word \<open>w\<close> and turns the
  captures \<open>c\<close> into \<open>c'\<close>. It describes the results of \<open>run\<close> without their order.
\<close>

fun sem :: "rx \<Rightarrow> jsstring \<Rightarrow> captures \<Rightarrow> captures \<Rightarrow> bool" where
  "sem (Lit l) w c c' = (w = l \<and> c' = c)"
| "sem (Rep k lo hi) w c c' = (w \<in> lang (Rep k lo hi) \<and> c' = c)"
| "sem (Grp g r) w c c' = (\<exists>c1. sem r w c c1 \<and> c' = c1(g \<mapsto> w))"
| "sem (Seq a b) w c c' = (\<exists>u v c1. w = u @ v \<and> sem a u c c1 \<and> sem b v c1 c')"

text \<open>
  \<open>found r s m pre w post c\<close>: the match result \<open>m\<close> of \<open>r\<close> on \<open>s\<close> is the word \<open>w\<close>
  between \<open>pre\<close> and \<open>post\<close>, it is what the matcher tries first there, and no match
  starts further left.
\<close>

definition found :: "rx \<Rightarrow> jsstring \<Rightarrow> captures \<Rightarrow> jsstring \<Rightarrow> jsstring \<Rightarrow> jsstring \<Rightarrow> captures \<Rightarrow> bool" where
  "found x s m pre w post c \<longleftrightarrow>
     s = pre @ w @ post \<and> sem x w Map.empty c \<and> m = c(0 \<mapsto> w)
     \<and> (\<exists>alts. run x (w @ post) Map.empty = (post, c) # alts)
     \<and> (\<forall>pre' w' post'. s = pre' @ w' @ post' \<and> w' \<in> lang x \<longrightarrow> length pre \<le> length pre')"

section \<open>The shape of a timestamp\<close>

text \<open>
  A field of \<open>lo\<close> to \<open>hi\<close> decimal digits, a non-empty run of white space, a field
  padded with zeros on the left to two code units, and the timestamp
  \<open>YYYY/MM/DD HH:MM:SS\<close> made of six fields.
\<close>

definition digits :: "nat \<Rightarrow> nat \<Rightarrow> jsstring \<Rightarrow> bool" where
  "digits lo hi w = (lo \<le> length w \<and> length w \<le> hi \<and> list_all is_digit w)"

definition spaces :: "jsstring \<Rightarrow> bool" where
  "spaces w = (w \<noteq> [] \<and> list_all is_space w)"

definition zero_padded :: "jsstring \<Rightarrow> jsstring" where
  "zero_padded f = replicate (2 - length f) 48 @ f"

definition timestamp ::
    "jsstring \<Rightarrow> jsstring \<Rightarrow> jsstring \<Rightarrow> jsstring \<Rightarrow> jsstring \<Rightarrow> jsstring \<Rightarrow> jsstring" where
  "timestamp y mo d h mi se =
     y @ [47] @ zero_padded mo @ [47] @ zero_padded d @ [32]
       @ zero_padded h @ [58] @ zero_padded mi @ [58] @ zero_padded se"

text \<open>The six groups of a match of the date expression.\<close>

definition date_caps ::
    "jsstring \<Rightarrow> jsstring \<Rightarrow> jsstring \<Rightarrow> jsstring \<Rightarrow> jsstring \<Rightarrow> jsstring \<Rightarrow> captures" where
  "date_caps y mo d h mi se = [1 \<mapsto> y, 2 \<mapsto> mo, 3 \<mapsto> d, 4 \<mapsto> h, 5 \<mapsto> mi, 6 \<mapsto> se]"

section \<open>What extraction is meant to produce\<close>

text \<open>
  The part of a string before the first two consecutive white space code units (all of it
  when there is no such pair).
\<close>

fun before_space_run :: "jsstring \<Rightarrow> jsstring" where
  "before_space_run [] = []"
| "before_space_run [x] = [x]"
| "before_space_run (x # y # s) =
     (if is_space x \<and> is_space y then [] else x # before_space_run (y # s))"

text \<open>The text of group 1 of the first match of an expression in a string.\<close>

definition captured :: "rx \<Rightarrow> jsstring \<Rightarrow> jsstring option" where
  "captured r s = (case match r s of None \<Rightarrow> None | Some m \<Rightarrow> m 1)"

text \<open>
  Three of the four patterns are a label, optional white space and the rest of the line
  in group 1.
\<close>

definition labelled :: "jsstring \<Rightarrow> rx" where
  "labelled l = Seq (Lit l) (Seq (Rep Space 0 None) (Grp 1 (Rep Dot 1 None)))"

text \<open>
  Mail bodies used as concrete inputs: a complete one, one without the frequency line,
  one whose amount has no digit, and one with an amount of \<open>2 ^ 53 + 1\<close> yen.
\<close>

definition sample_body :: jsstring where
  "sample_body =
     [25903, 25588, 21463, 20184, 26085, 26178, 58] @ str '' 2024/3/5 9:7:1'' @ [10]
     @ [25903, 25588, 20184, 32773, 21517, 58] @ str '' Taro Yamada  (id 7)'' @ [10]
     @ [25903, 25588, 37329, 38989, 58] @ str '' 12,345'' @ [20870, 10]
     @ [25903, 25588, 38971, 24230, 58] @ str '' monthly (x)'' @ [10]"

definition no_frequency_body :: jsstring where
  "no_frequency_body =
     [25903, 25588, 21463, 20184, 26085, 26178, 58] @ str '' 2024/3/5 9:7:1'' @ [10]
     @ [25903, 25588, 20184, 32773, 21517, 58] @ str '' Taro Yamada'' @ [10]
     @ [25903, 25588, 37329, 38989, 58] @ str '' 12,345'' @ [20870, 10]"

definition no_digit_body :: jsstring where
  "no_digit_body =
     [25903, 25588, 21463, 20184, 26085, 26178, 58] @ str '' 2024/3/5 9:7:1'' @ [10]
     @ [25903, 25588, 20184, 32773, 21517, 58] @ str '' Taro Yamada'' @ [10]
     @ [25903, 25588, 37329, 38989, 58] @ str '' ,'' @ [20870, 10]
     @ [25903, 25588, 38971, 24230, 58] @ str '' monthly'' @ [10]"

definition big_amount_body :: jsstring where
  "big_amount_body =
     [25903, 25588, 21463, 20184, 26085, 26178, 58] @ str '' 2024/3/5 9:7:1'' @ [10]
     @ [25903, 25588, 20184, 32773, 21517, 58] @ str '' Taro'' @ [10]
     @ [25903, 25588, 37329, 38989, 58] @ str '' 9007199254740993'' @ [20870, 10]
     @ [25903, 25588, 38971, 24230, 58] @ str '' monthly'' @ [10]"

section \<open>Reading the record of calls\<close>

text \<open>
  The ids on which the mark-read call was issued, the ids whose body was read, and
  whether a call goes to a sink (the webhook or the spreadsheet).
\<close>

fun marked_read :: "call list \<Rightarrow> jsstring list" where
  "marked_read [] = []"
| "marked_read (MarkRead i # cs) = i # marked_read cs"
| "marked_read (c # cs) = marked_read cs"

fun bodies_read :: "call list \<Rightarrow> jsstring list" where
  "bodies_read [] = []"
| "bodies_read (GetPlainBody i # cs) = i # bodies_read cs"
| "bodies_read (c # cs) = bodies_read cs"

fun sink_call :: "call \<Rightarrow> bool" where
  "sink_call (Fetch url payload) = True"
| "sink_call (OpenById sid sname) = True"
| "sink_call GetLastRow = True"
| "sink_call (AppendRow row) = True"
| "sink_call c = False"

text \<open>Whether a call reads the script properties.\<close>

fun property_call :: "call \<Rightarrow> bool" where
  "property_call GetScriptProperties = True"
| "property_call (GetProperty key) = True"
| "property_call c = False"

text \<open>The two sink operations of \<open>processDonation\<close>, one after the other.\<close>

definition sinks :: "platform \<Rightarrow> DonationNotifierApp \<Rightarrow> DonationDetails \<Rightarrow> unit action" where
  "sinks P app details = then_do (notify_step P app details) (record_step P app details)"

text \<open>The calls of the mark-read statement when it starts in the world \<open>w\<close>.\<close>

definition mark_calls :: "platform \<Rightarrow> world \<Rightarrow> jsstring \<Rightarrow> call list" where
  "mark_calls P w messageId =
     GetMessageById messageId
       # (if getMessage_error P w messageId = None then [MarkRead messageId] else [])"

text \<open>
  Concrete inputs: a world in which nothing has happened, with no sheet or with an empty
  sheet; a host on which every call succeeds, no property is set and the search finds
  nothing; a donation.
\<close>

definition empty_world :: world where
  "empty_world = \<lparr>calls = [], console = [], sheet = None\<rparr>"

definition empty_sheet_world :: world where
  "empty_sheet_world = \<lparr>calls = [], console = [], sheet = Some []\<rparr>"

definition reliable :: platform where
  "reliable =
     \<lparr>properties_error = (\<lambda>w. None),
      property_result = (\<lambda>w key. Inr None),
      search_result = (\<lambda>w. Inr []),
      fetch_error = (\<lambda>w url payload. None),
      open_error = (\<lambda>w sid sname. None),
      lastRow_error = (\<lambda>w. None),
      append_error = (\<lambda>w row. None),
      getMessage_error = (\<lambda>w messageId. None),
      markRead_error = (\<lambda>w messageId. None),
      toLocaleString = (\<lambda>n. []),
      new_Date = (\<lambda>s. None)\<rparr>"

definition sample_details :: DonationDetails where
  "sample_details =
     \<lparr>date = str ''2024/03/05 09:07:01'', name = str ''Taro Yamada'', amount = Num 12345,
      frequency = str ''monthly''\<rparr>"

definition both_sinks :: DonationNotifierApp where
  "both_sinks =
     \<lparr>configService = \<lparr>slackWebhookUrl = Some (str ''https://hook''),
                         spreadsheetId = Some (str ''sid''), sheetName = Some (str ''log'')\<rparr>,
      slackService = Some (str ''https://hook''),
      sheetsService = Some (str ''sid'', str ''log'')\<rparr>"

text \<open>
  A configuration with the spreadsheet but no webhook, a message whose body cannot be
  read, and a message with the complete body.
\<close>

definition sheets_only :: AppConfig where
  "sheets_only =
     \<lparr>slackWebhookUrl = None, spreadsheetId = Some (str ''sid''), sheetName = Some (str ''log'')\<rparr>"

text \<open>
  Hosts that differ from the reliable one: the script properties hold the spreadsheet
  settings only; the property store cannot be opened; no row can be appended; the lookup
  of a message fails.
\<close>

definition sheets_only_store :: platform where
  "sheets_only_store =
     reliable\<lparr>property_result := (\<lambda>w key.
        if key = str ''GOOGLE_SHEETS_ID'' then Inr (Some (str ''sid''))
        else if key = str ''GOOGLE_SHEETS_NAME'' then Inr (Some (str ''log''))
        else Inr None)\<rparr>"

definition broken_store :: platform where
  "broken_store = reliable\<lparr>properties_error := (\<lambda>w. Some (PlatformError (str ''store'')))\<rparr>"

definition quota_exceeded :: platform where
  "quota_exceeded = reliable\<lparr>append_error := (\<lambda>w row. Some (PlatformError (str ''quota'')))\<rparr>"

definition lost_message :: platform where
  "lost_message =
     reliable\<lparr>getMessage_error := (\<lambda>w messageId. Some (PlatformError (str ''lost'')))\<rparr>"

definition bad_message :: message where
  "bad_message = \<lparr>msg_id = str ''m1'', msg_body = Inl (PlatformError (str ''gone''))\<rparr>"

definition good_message :: message where
  "good_message = \<lparr>msg_id = str ''m2'', msg_body = Inr sample_body\<rparr>"

section \<open>The matcher and the language of an expression\<close>

lemma take_eq_iff_append: "take (length l) s = l \<longleftrightarrow> (\<exists>r. s = l @ r)"
  by (metis append_eq_conv_conj append_take_drop_id)

lemma run_Lit_mem: "(r, c') \<in> set (run (Lit l) s c) \<longleftrightarrow> s = l @ r \<and> c' = c"
  by (auto simp: take_eq_iff_append)

lemma takeWhile_prefix_len:
  "n \<le> length (takeWhile P s) \<Longrightarrow> \<forall>x \<in> set (take n s). P x"
proof (induction s arbitrary: n)
  case Nil then show ?case by simp
next
  case (Cons a s)
  then show ?case by (cases n) (auto split: if_splits)
qed

lemma takeWhile_len_append:
  "\<forall>x \<in> set w. P x \<Longrightarrow> length w \<le> length (takeWhile P (w @ r))"
  by (induction w) auto

lemma run_Rep_set:
  "set (run (Rep k lo hi) s c) =
     (\<lambda>n. (drop n s, c)) ` {n. lo \<le> n \<and> n \<le> length (takeWhile (in_cls k) s)
                               \<and> (case hi of None \<Rightarrow> True | Some h \<Rightarrow> n \<le> h)}"
  by (auto simp: Let_def split: option.splits)

lemma run_Rep_mem:
  "(r, c') \<in> set (run (Rep k lo hi) s c) \<longleftrightarrow>
     c' = c \<and> (\<exists>w. s = w @ r \<and> w \<in> lang (Rep k lo hi))"
proof
  assume "(r, c') \<in> set (run (Rep k lo hi) s c)"
  then obtain n where n: "lo \<le> n" "n \<le> length (takeWhile (in_cls k) s)"
      "case hi of None \<Rightarrow> True | Some h \<Rightarrow> n \<le> h" "r = drop n s" "c' = c"
    unfolding run_Rep_set by blast
  have len: "n \<le> length s"
    using n(2) length_takeWhile_le[of "in_cls k" s] by linarith
  have "s = take n s @ r" using n(4) by simp
  moreover have "take n s \<in> lang (Rep k lo hi)"
    using n(1,3) len takeWhile_prefix_len[OF n(2)] by (auto split: option.splits)
  ultimately show "c' = c \<and> (\<exists>w. s = w @ r \<and> w \<in> lang (Rep k lo hi))"
    using n(5) by blast
next
  assume "c' = c \<and> (\<exists>w. s = w @ r \<and> w \<in> lang (Rep k lo hi))"
  then obtain w where w: "c' = c" "s = w @ r" "lo \<le> length w"
      "case hi of None \<Rightarrow> True | Some h \<Rightarrow> length w \<le> h" "\<forall>x \<in> set w. in_cls k x"
    by auto
  have "length w \<le> length (takeWhile (in_cls k) s)"
    using w(2,5) takeWhile_len_append by blast
  moreover have "drop (length w) s = r" using w(2) by simp
  ultimately show "(r, c') \<in> set (run (Rep k lo hi) s c)"
    unfolding run_Rep_set using w(1,3,4) by blast
qed

lemma run_sem:
  "(r, c') \<in> set (run x s c) \<longleftrightarrow> (\<exists>w. s = w @ r \<and> sem x w c c')"
proof (induction x arbitrary: s c r c')
  case (Lit l)
  show ?case by (auto simp: run_Lit_mem simp del: run.simps)
next
  case (Rep k lo hi)
  show ?case unfolding run_Rep_mem by auto
next
  case (Grp g x)
  show ?case
  proof
    assume "(r, c') \<in> set (run (Grp g x) s c)"
    then obtain c1 where c1: "(r, c1) \<in> set (run x s c)"
        "c' = c1(g \<mapsto> take (length s - length r) s)"
      by auto
    from c1(1) obtain w where w: "s = w @ r" "sem x w c c1" using Grp.IH by blast
    have "take (length s - length r) s = w" using w(1) by simp
    then show "\<exists>w. s = w @ r \<and> sem (Grp g x) w c c'" using w c1(2) by auto
  next
    assume "\<exists>w. s = w @ r \<and> sem (Grp g x) w c c'"
    then obtain w c1 where w: "s = w @ r" "sem x w c c1" "c' = c1(g \<mapsto> w)" by auto
    have "(r, c1) \<in> set (run x s c)" using w(1,2) Grp.IH by blast
    moreover have "take (length s - length r) s = w" using w(1) by simp
    ultimately show "(r, c') \<in> set (run (Grp g x) s c)" using w(3) by force
  qed
next
  case (Seq a b)
  show ?case
  proof
    assume "(r, c') \<in> set (run (Seq a b) s c)"
    then obtain r1 c1 where m: "(r1, c1) \<in> set (run a s c)" "(r, c') \<in> set (run b r1 c1)"
      by auto
    from m(1) obtain u where u: "s = u @ r1" "sem a u c c1" using Seq.IH(1) by blast
    from m(2) obtain v where v: "r1 = v @ r" "sem b v c1 c'" using Seq.IH(2) by blast
    have "s = (u @ v) @ r" using u(1) v(1) by simp
    moreover have "sem (Seq a b) (u @ v) c c'" using u(2) v(2) by auto
    ultimately show "\<exists>w. s = w @ r \<and> sem (Seq a b) w c c'" by blast
  next
    assume "\<exists>w. s = w @ r \<and> sem (Seq a b) w c c'"
    then obtain u v c1 where w: "s = (u @ v) @ r" "sem a u c c1" "sem b v c1 c'" by auto
    have "(v @ r, c1) \<in> set (run a s c)" using w(1,2) Seq.IH(1) by auto
    moreover have "(r, c') \<in> set (run b (v @ r) c1)" using w(3) Seq.IH(2) by blast
    ultimately show "(r, c') \<in> set (run (Seq a b) s c)" by force
  qed
qed

lemma sem_lang: "sem x w c c' \<Longrightarrow> w \<in> lang x"
proof (induction x arbitrary: w c c')
  case (Lit l)
  then show ?case by simp
next
  case (Rep k lo hi)
  then show ?case by simp
next
  case (Grp g x)
  then obtain c1 where "sem x w c c1" by auto
  then show ?case using Grp.IH by simp
next
  case (Seq a b)
  then obtain u v c1 where uv: "w = u @ v" "sem a u c c1" "sem b v c1 c'" by auto
  have "u \<in> lang a" "v \<in> lang b" using uv Seq.IH by blast+
  then show ?case using uv(1) by auto
qed

lemma lang_sem: "w \<in> lang x \<Longrightarrow> \<exists>c'. sem x w c c'"
proof (induction x arbitrary: w c)
  case (Lit l)
  then show ?case by simp
next
  case (Rep k lo hi)
  then show ?case by simp
next
  case (Grp g x)
  then have "w \<in> lang x" by simp
  then obtain c1 where "sem x w c c1" using Grp.IH by blast
  then show ?case by auto
next
  case (Seq a b)
  then obtain u v where uv: "w = u @ v" "u \<in> lang a" "v \<in> lang b" by auto
  obtain c1 where c1: "sem a u c c1" using Seq.IH(1) uv(2) by blast
  obtain c2 where c2: "sem b v c1 c2" using Seq.IH(2) uv(3) by blast
  show ?case using uv(1) c1 c2 by auto
qed

lemma run_empty_iff: "run x s c = [] \<longleftrightarrow> (\<forall>w r. s = w @ r \<longrightarrow> w \<notin> lang x)"
proof
  assume e: "run x s c = []"
  show "\<forall>w r. s = w @ r \<longrightarrow> w \<notin> lang x"
  proof (intro allI impI notI)
    fix w r assume "s = w @ r" "w \<in> lang x"
    then obtain c' where "sem x w c c'" using lang_sem by blast
    then have "(r, c') \<in> set (run x s c)" using \<open>s = w @ r\<close> run_sem by blast
    then show False using e by simp
  qed
next
  assume a: "\<forall>w r. s = w @ r \<longrightarrow> w \<notin> lang x"
  show "run x s c = []"
  proof (rule ccontr)
    assume "run x s c \<noteq> []"
    then obtain r c' where "(r, c') \<in> set (run x s c)"
      by (cases "run x s c") auto
    then obtain w where w: "s = w @ r" "sem x w c c'" using run_sem by blast
    have "w \<in> lang x" using w(2) by (rule sem_lang)
    then show False using a w(1) by blast
  qed
qed

lemma match_None_iff:
  "match x s = None \<longleftrightarrow> (\<forall>pre w post. s = pre @ w @ post \<longrightarrow> w \<notin> lang x)"
proof (induction s)
  case Nil
  show ?case using run_empty_iff[of x "[]" Map.empty] by (auto split: list.splits)
next
  case (Cons a s)
  have "match x (a # s) = None \<longleftrightarrow> run x (a # s) Map.empty = [] \<and> match x s = None"
    by (auto split: list.splits)
  also have "\<dots> \<longleftrightarrow> (\<forall>w r. a # s = w @ r \<longrightarrow> w \<notin> lang x)
                 \<and> (\<forall>pre w post. s = pre @ w @ post \<longrightarrow> w \<notin> lang x)"
    using run_empty_iff Cons.IH by simp
  also have "\<dots> \<longleftrightarrow> (\<forall>pre w post. a # s = pre @ w @ post \<longrightarrow> w \<notin> lang x)"
  proof (intro iffI allI impI conjI)
    fix pre w post
    assume h: "(\<forall>w r. a # s = w @ r \<longrightarrow> w \<notin> lang x)
                 \<and> (\<forall>pre w post. s = pre @ w @ post \<longrightarrow> w \<notin> lang x)"
       and e: "a # s = pre @ w @ post"
    show "w \<notin> lang x"
    proof (cases pre)
      case Nil then show ?thesis using h e by auto
    next
      case (Cons p ps)
      then have "s = ps @ w @ post" using e by simp
      then show ?thesis using h by blast
    qed
  next
    fix w r
    assume h: "\<forall>pre w post. a # s = pre @ w @ post \<longrightarrow> w \<notin> lang x" and e: "a # s = w @ r"
    have "a # s = [] @ w @ r" using e by simp
    then show "w \<notin> lang x" using h by blast
  next
    fix pre w post
    assume h: "\<forall>pre w post. a # s = pre @ w @ post \<longrightarrow> w \<notin> lang x" and e: "s = pre @ w @ post"
    have "a # s = (a # pre) @ w @ post" using e by simp
    then show "w \<notin> lang x" using h by blast
  qed
  finally show ?case .
qed

lemma match_Some_found:
  "match x s = Some m \<Longrightarrow> \<exists>pre w post c. found x s m pre w post c"
proof (induction s)
  case Nil
  show ?case
  proof (cases "run x [] Map.empty")
    case Nil
    then show ?thesis using \<open>match x [] = Some m\<close> by simp
  next
    case (Cons rc list)
    obtain rest c where rc: "rc = (rest, c)" by (cases rc)
    have m: "m = c(0 \<mapsto> [])" using \<open>match x [] = Some m\<close> Cons rc by simp
    have "(rest, c) \<in> set (run x [] Map.empty)" using Cons rc by simp
    then obtain w where w: "[] = w @ rest" "sem x w Map.empty c" using run_sem by blast
    have "found x [] m [] [] [] c"
      unfolding found_def using w m Cons rc by (simp del: run.simps)
    then show ?thesis by blast
  qed
next
  case (Cons a s)
  show ?case
  proof (cases "run x (a # s) Map.empty")
    case Nil
    then have m: "match x s = Some m" using Cons.prems by simp
    from Cons.IH[OF m] obtain pre w post c where p: "found x s m pre w post c" by blast
    have no: "\<forall>w r. a # s = w @ r \<longrightarrow> w \<notin> lang x" using Nil run_empty_iff by blast
    have left: "\<forall>pre' w' post'. a # s = pre' @ w' @ post' \<and> w' \<in> lang x
                 \<longrightarrow> length (a # pre) \<le> length pre'"
    proof (intro allI impI)
      fix pre' w' post' assume h: "a # s = pre' @ w' @ post' \<and> w' \<in> lang x"
      show "length (a # pre) \<le> length pre'"
      proof (cases pre')
        case Nil then show ?thesis using h no by auto
      next
        case (Cons q qs)
        then have "s = qs @ w' @ post'" using h by simp
        then show ?thesis using p h Cons unfolding found_def by auto
      qed
    qed
    have "found x (a # s) m (a # pre) w post c"
      using p left unfolding found_def by simp
    then show ?thesis by blast
  next
    case (Cons rc list)
    obtain rest c where rc: "rc = (rest, c)" by (cases rc)
    have m: "m = c(0 \<mapsto> take (length (a # s) - length rest) (a # s))"
      using Cons.prems Cons rc by simp
    have "(rest, c) \<in> set (run x (a # s) Map.empty)" using Cons rc by simp
    then obtain w where w: "a # s = w @ rest" "sem x w Map.empty c" using run_sem by blast
    have t: "take (length (a # s) - length rest) (a # s) = w" using w(1) by simp
    have "found x (a # s) m [] w rest c"
      unfolding found_def using w m t Cons rc by (simp del: run.simps)
    then show ?thesis by blast
  qed
qed

section \<open>The date expression\<close>

lemma in_cls_eq:
  "in_cls Digit = is_digit" "in_cls Space = is_space" "in_cls Dot = is_dot"
  by (rule ext, simp)+

lemma takeWhile_all_append:
  "list_all P w \<Longrightarrow> takeWhile P (w @ r) = w @ takeWhile P r"
  by (induction w) auto

lemma run_Rep_exact:
  assumes "length y = n" "list_all (in_cls k) y"
  shows "run (Rep k n (Some n)) (y @ t) c = [(t, c)]"
proof -
  have "n \<le> length (takeWhile (in_cls k) (y @ t))"
    using assms by (simp add: takeWhile_all_append)
  then have "min n (length (takeWhile (in_cls k) (y @ t))) = n" by simp
  then show ?thesis using assms(1) by (simp add: Let_def)
qed

lemma run_Grp_single:
  "run x (y @ t) c = [(t, c1)] \<Longrightarrow> run (Grp g x) (y @ t) c = [(t, c1(g \<mapsto> y))]"
  by simp

lemma run_Seq_single:
  "run a s c = [(t, c1)] \<Longrightarrow> run (Seq a b) s c = run b t c1"
  by simp

lemma run_year:
  assumes "digits 4 4 y"
  shows "run (Seq (Grp g (Rep Digit 4 (Some 4))) R) (y @ t) c = run R t (c(g \<mapsto> y))"
proof -
  have "run (Rep Digit 4 (Some 4)) (y @ t) c = [(t, c)]"
    using assms by (intro run_Rep_exact) (auto simp: digits_def list_all_iff)
  then have "run (Grp g (Rep Digit 4 (Some 4))) (y @ t) c = [(t, c(g \<mapsto> y))]"
    by (rule run_Grp_single)
  then show ?thesis by (rule run_Seq_single)
qed

lemma digits12_cases:
  assumes "digits 1 2 f"
  obtains a where "f = [a]" "is_digit a" | a b where "f = [a, b]" "is_digit a" "is_digit b"
proof (cases f)
  case Nil then show ?thesis using assms by (simp add: digits_def)
next
  case (Cons a f')
  show ?thesis
  proof (cases f')
    case Nil then show ?thesis using Cons assms that(1) by (simp add: digits_def)
  next
    case (Cons b f'')
    then have "f'' = []" using \<open>f = a # f'\<close> assms by (simp add: digits_def)
    then show ?thesis using Cons \<open>f = a # f'\<close> assms that(2) by (simp add: digits_def)
  qed
qed

lemma run_field_last:
  assumes "digits 1 2 f"
  shows "\<exists>alts. run (Grp g (Rep Digit 1 (Some 2))) f c = ([], c(g \<mapsto> f)) # alts"
  using assms
proof (cases rule: digits12_cases)
  case (1 a)
  then show ?thesis by (simp add: Let_def)
next
  case (2 a b)
  then show ?thesis by (simp add: Let_def)
qed

lemma digit_not_space: "is_digit x \<Longrightarrow> \<not> is_space x"
  by (auto simp: is_digit_def is_space_def)

lemma run_digit_on_space:
  assumes "is_space x"
  shows "run (Seq (Grp g (Rep Digit 1 hi)) R) (x # t) c = []"
proof -
  have "\<not> is_digit x" using assms digit_not_space by blast
  then have "run (Rep Digit 1 hi) (x # t) c = []"
    by (simp add: Let_def split: option.splits)
  then have "run (Grp g (Rep Digit 1 hi)) (x # t) c = []" by simp
  then show ?thesis by simp
qed

lemma concat_map_Nil: "(\<And>x. x \<in> set xs \<Longrightarrow> f x = []) \<Longrightarrow> concat (map f xs) = []"
  by (induction xs) auto

lemma run_Seq_Rep:
  "run (Seq (Rep k lo None) R) s c
     = concat (map (\<lambda>n. run R (drop n s) c) (rev [lo ..< Suc (length (takeWhile (in_cls k) s))]))"
  by (simp add: Let_def comp_def del: upt_Suc)

lemma run_spaces_field:
  assumes "spaces ws" "is_digit x"
  shows "run (Seq (Rep Space 1 None) (Seq (Grp g (Rep Digit 1 hi)) R)) (ws @ x # t) c
           = run (Seq (Grp g (Rep Digit 1 hi)) R) (x # t) c"
proof -
  define R' where "R' = Seq (Grp g (Rep Digit 1 hi)) R"
  define s where "s = ws @ x # t"
  have all: "list_all is_space ws" and ne: "ws \<noteq> []" using assms(1) by (auto simp: spaces_def)
  have tw: "takeWhile (in_cls Space) s = ws"
    using all digit_not_space[OF assms(2)] by (simp add: s_def in_cls_eq takeWhile_all_append)
  have up: "rev [1 ..< Suc (length ws)] = length ws # rev [1 ..< length ws]"
    using ne by (cases ws) auto
  have short: "run R' (drop n s) c = []" if "n \<in> set (rev [1 ..< length ws])" for n
  proof -
    have n: "n < length ws" using that by simp
    then have "drop n s = (ws ! n) # (drop (Suc n) ws @ x # t)"
      by (simp add: s_def Cons_nth_drop_Suc)
    moreover have "is_space (ws ! n)" using all n by (simp add: list_all_length)
    ultimately show ?thesis unfolding R'_def using run_digit_on_space by metis
  qed
  have "run (Seq (Rep Space 1 None) R') s c
          = concat (map (\<lambda>n. run R' (drop n s) c) (rev [1 ..< Suc (length ws)]))"
    unfolding run_Seq_Rep tw ..
  also have "\<dots> = run R' (drop (length ws) s) c
                   @ concat (map (\<lambda>n. run R' (drop n s) c) (rev [1 ..< length ws]))"
    unfolding up by simp
  also have "concat (map (\<lambda>n. run R' (drop n s) c) (rev [1 ..< length ws])) = []"
    by (rule concat_map_Nil) (rule short)
  also have "drop (length ws) s = x # t" by (simp add: s_def)
  finally show ?thesis unfolding R'_def s_def by simp
qed

lemma run_field_then:
  assumes f: "digits 1 2 f"
      and t: "t = [] \<or> \<not> is_digit (hd t)"
      and K: "\<And>b t' c'. is_digit b \<Longrightarrow> run K (b # t') c' = []"
  shows "run (Seq (Grp g (Rep Digit 1 (Some 2))) K) (f @ t) c = run K t (c(g \<mapsto> f))"
proof -
  have tw: "takeWhile (in_cls Digit) t = []" using t by (cases t) auto
  from f show ?thesis
  proof (cases rule: digits12_cases)
    case (1 a)
    then have "run (Rep Digit 1 (Some 2)) (f @ t) c = [(t, c)]"
      by (simp add: Let_def tw)
    then have "run (Grp g (Rep Digit 1 (Some 2))) (f @ t) c = [(t, c(g \<mapsto> f))]"
      by (rule run_Grp_single)
    then show ?thesis by (rule run_Seq_single)
  next
    case (2 a b)
    then have "run (Rep Digit 1 (Some 2)) (f @ t) c = [(t, c), (b # t, c)]"
      by (simp add: Let_def tw)
    then have "run (Grp g (Rep Digit 1 (Some 2))) (f @ t) c
                 = [(t, c(g \<mapsto> f)), (b # t, c(g \<mapsto> [a]))]"
      using 2 by simp
    then have "run (Seq (Grp g (Rep Digit 1 (Some 2))) K) (f @ t) c
                 = run K t (c(g \<mapsto> f)) @ run K (b # t) (c(g \<mapsto> [a]))"
      by simp
    then show ?thesis using K[OF 2(3)] by simp
  qed
qed

lemma run_Lit_step: "run (Seq (Lit [x]) R) (x # t) c = run R t c"
  by simp

lemma run_Lit_fail: "b \<noteq> x \<Longrightarrow> run (Seq (Lit [x]) R) (b # t) c = []"
  by simp

lemma run_Space_fail: "is_digit b \<Longrightarrow> run (Seq (Rep Space 1 None) R) (b # t) c = []"
  using digit_not_space[of b] by (simp add: Let_def)

lemma run_field_sep:
  assumes "digits 1 2 f" "\<not> is_digit x"
  shows "run (Seq (Grp g (Rep Digit 1 (Some 2))) (Seq (Lit [x]) R)) (f @ x # t) c
           = run R t (c(g \<mapsto> f))"
proof -
  have "run (Seq (Grp g (Rep Digit 1 (Some 2))) (Seq (Lit [x]) R)) (f @ x # t) c
          = run (Seq (Lit [x]) R) (x # t) (c(g \<mapsto> f))"
  proof (rule run_field_then[OF assms(1)])
    show "x # t = [] \<or> \<not> is_digit (hd (x # t))" using assms(2) by simp
  next
    fix b t' c' assume "is_digit b"
    then have "b \<noteq> x" using assms(2) by auto
    then show "run (Seq (Lit [x]) R) (b # t') c' = []" by (rule run_Lit_fail)
  qed
  then show ?thesis by (simp only: run_Lit_step)
qed

lemma run_field_spaces:
  assumes "digits 1 2 f" "spaces ws"
  shows "run (Seq (Grp g (Rep Digit 1 (Some 2))) (Seq (Rep Space 1 None) R)) (f @ ws @ t) c
           = run (Seq (Rep Space 1 None) R) (ws @ t) (c(g \<mapsto> f))"
proof (rule run_field_then[OF assms(1)])
  obtain x ws' where ws: "ws = x # ws'" "is_space x"
    using assms(2) by (cases ws) (auto simp: spaces_def)
  then show "ws @ t = [] \<or> \<not> is_digit (hd (ws @ t))" using digit_not_space by auto
next
  fix b t' c' assume "is_digit b"
  then show "run (Seq (Rep Space 1 None) R) (b # t') c' = []" by (rule run_Space_fail)
qed

lemma run_spaces_digits:
  assumes "spaces ws" "digits 1 2 h"
  shows "run (Seq (Rep Space 1 None) (Seq (Grp g (Rep Digit 1 hi)) R)) (ws @ h @ t) c
           = run (Seq (Grp g (Rep Digit 1 hi)) R) (h @ t) c"
proof -
  obtain x h' where h: "h = x # h'" "is_digit x"
    using assms(2) by (cases h) (auto simp: digits_def)
  show ?thesis using run_spaces_field[OF assms(1) h(2), of g hi R "h' @ t" c] h(1) by simp
qed

lemma run_date_exact:
  assumes "digits 4 4 y" "digits 1 2 mo" "digits 1 2 d" "spaces ws"
          "digits 1 2 h" "digits 1 2 mi" "digits 1 2 se"
  shows "\<exists>alts. run date_rx (y @ [47] @ mo @ [47] @ d @ ws @ h @ [58] @ mi @ [58] @ se) Map.empty
           = ([], date_caps y mo d h mi se) # alts"
proof -
  have nd: "\<not> is_digit 47" "\<not> is_digit 58" by (simp_all add: is_digit_def)
  obtain alts where last: "run (Grp 6 (Rep Digit 1 (Some 2))) se [1 \<mapsto> y, 2 \<mapsto> mo, 3 \<mapsto> d, 4 \<mapsto> h, 5 \<mapsto> mi]
            = ([], date_caps y mo d h mi se) # alts"
    using run_field_last[OF assms(7)] unfolding date_caps_def by blast
  have "run date_rx (y @ [47] @ mo @ [47] @ d @ ws @ h @ [58] @ mi @ [58] @ se) Map.empty
          = run (Grp 6 (Rep Digit 1 (Some 2))) se [1 \<mapsto> y, 2 \<mapsto> mo, 3 \<mapsto> d, 4 \<mapsto> h, 5 \<mapsto> mi]"
    unfolding date_rx_def
    by (simp only: append_Cons append_Nil run_year[OF assms(1)] run_Lit_step
          run_field_sep[OF assms(2) nd(1)] run_field_spaces[OF assms(3,4)]
          run_spaces_digits[OF assms(4,5)] run_field_sep[OF assms(5) nd(2)]
          run_field_sep[OF assms(6) nd(2)])
  then show ?thesis using last by simp
qed

lemma match_date_exact:
  assumes "digits 4 4 y" "digits 1 2 mo" "digits 1 2 d" "spaces ws"
          "digits 1 2 h" "digits 1 2 mi" "digits 1 2 se"
      and s: "s = y @ [47] @ mo @ [47] @ d @ ws @ h @ [58] @ mi @ [58] @ se"
  shows "match date_rx s = Some ((date_caps y mo d h mi se)(0 \<mapsto> s))"
proof -
  obtain alts where r: "run date_rx s Map.empty = ([], date_caps y mo d h mi se) # alts"
    using run_date_exact[OF assms(1-7)] s by blast
  obtain x xs where c: "s = x # xs" using assms(1) s by (cases y) (auto simp: digits_def)
  show ?thesis using r unfolding c by simp
qed

lemma group_date_caps:
  "group ((date_caps y mo d h mi se)(0 \<mapsto> w)) (Suc 0) = Inr y"
  "group ((date_caps y mo d h mi se)(0 \<mapsto> w)) 2 = Inr mo"
  "group ((date_caps y mo d h mi se)(0 \<mapsto> w)) 3 = Inr d"
  "group ((date_caps y mo d h mi se)(0 \<mapsto> w)) 4 = Inr h"
  "group ((date_caps y mo d h mi se)(0 \<mapsto> w)) 5 = Inr mi"
  "group ((date_caps y mo d h mi se)(0 \<mapsto> w)) 6 = Inr se"
  by (simp_all add: group_def date_caps_def)

lemma padStart_zero_padded: "padStart 2 [48] f = zero_padded f"
proof (cases "2 \<le> length f")
  case True
  then show ?thesis by (simp add: padStart_def zero_padded_def)
next
  case False
  have "concat (replicate k [x]) = replicate k x" for k and x :: nat
    by (induction k) auto
  then show ?thesis using False by (simp add: padStart_def zero_padded_def)
qed

lemma normalize_caps:
  "match date_rx s = Some ((date_caps y mo d h mi se)(0 \<mapsto> w))
     \<Longrightarrow> normalize s = Inr (timestamp y mo d h mi se)"
  by (simp add: normalize_def group_date_caps timestamp_def padStart_zero_padded)

lemma normalize_exact:
  assumes "digits 4 4 y" "digits 1 2 mo" "digits 1 2 d" "spaces ws"
          "digits 1 2 h" "digits 1 2 mi" "digits 1 2 se"
  shows "normalize (y @ [47] @ mo @ [47] @ d @ ws @ h @ [58] @ mi @ [58] @ se)
           = Inr (timestamp y mo d h mi se)"
  by (rule normalize_caps, rule match_date_exact[OF assms]) simp

lemma lang_Rep_digits: "w \<in> lang (Rep Digit lo (Some hi)) \<longleftrightarrow> digits lo hi w"
  by (auto simp: digits_def list_all_iff)

lemma lang_Rep_spaces: "w \<in> lang (Rep Space 1 None) \<longleftrightarrow> spaces w"
  by (cases w) (auto simp: spaces_def list_all_iff)

lemma sem_date_rx:
  assumes "sem date_rx w c0 c"
  shows "\<exists>y mo d ws h mi se.
           w = y @ [47] @ mo @ [47] @ d @ ws @ h @ [58] @ mi @ [58] @ se
         \<and> digits 4 4 y \<and> digits 1 2 mo \<and> digits 1 2 d \<and> spaces ws
         \<and> digits 1 2 h \<and> digits 1 2 mi \<and> digits 1 2 se
         \<and> c = c0(1 \<mapsto> y, 2 \<mapsto> mo, 3 \<mapsto> d, 4 \<mapsto> h, 5 \<mapsto> mi, 6 \<mapsto> se)"
  using assms unfolding date_rx_def sem.simps lang_Rep_digits lang_Rep_spaces
  by (elim exE conjE) (simp, blast)

lemma match_date_Some:
  assumes "match date_rx s = Some m"
  shows "\<exists>pre y mo d ws h mi se post.
           s = pre @ (y @ [47] @ mo @ [47] @ d @ ws @ h @ [58] @ mi @ [58] @ se) @ post
         \<and> digits 4 4 y \<and> digits 1 2 mo \<and> digits 1 2 d \<and> spaces ws
         \<and> digits 1 2 h \<and> digits 1 2 mi \<and> digits 1 2 se
         \<and> m = (date_caps y mo d h mi se)
                 (0 \<mapsto> y @ [47] @ mo @ [47] @ d @ ws @ h @ [58] @ mi @ [58] @ se)"
proof -
  obtain pre w post c where f: "found date_rx s m pre w post c"
    using match_Some_found[OF assms] by blast
  then have s: "s = pre @ w @ post" and m: "m = c(0 \<mapsto> w)" and sem: "sem date_rx w Map.empty c"
    unfolding found_def by auto
  from sem_date_rx[OF sem] obtain y mo d ws h mi se where
      w: "w = y @ [47] @ mo @ [47] @ d @ ws @ h @ [58] @ mi @ [58] @ se"
     and dg: "digits 4 4 y" "digits 1 2 mo" "digits 1 2 d" "spaces ws"
         "digits 1 2 h" "digits 1 2 mi" "digits 1 2 se"
     and c: "c = [1 \<mapsto> y, 2 \<mapsto> mo, 3 \<mapsto> d, 4 \<mapsto> h, 5 \<mapsto> mi, 6 \<mapsto> se]"
    by blast
  have "m = (date_caps y mo d h mi se)(0 \<mapsto> w)" using m c by (simp add: date_caps_def)
  then show ?thesis using s w dg by blast
qed

lemma normalize_match:
  assumes "match date_rx s = Some m"
  shows "\<exists>pre y mo d ws h mi se post.
           s = pre @ (y @ [47] @ mo @ [47] @ d @ ws @ h @ [58] @ mi @ [58] @ se) @ post
         \<and> digits 4 4 y \<and> digits 1 2 mo \<and> digits 1 2 d \<and> spaces ws
         \<and> digits 1 2 h \<and> digits 1 2 mi \<and> digits 1 2 se
         \<and> normalize s = Inr (timestamp y mo d h mi se)"
proof -
  from match_date_Some[OF assms] obtain pre y mo d ws h mi se post where
      s: "s = pre @ (y @ [47] @ mo @ [47] @ d @ ws @ h @ [58] @ mi @ [58] @ se) @ post"
     and dg: "digits 4 4 y" "digits 1 2 mo" "digits 1 2 d" "spaces ws"
         "digits 1 2 h" "digits 1 2 mi" "digits 1 2 se"
     and m: "m = (date_caps y mo d h mi se)
                 (0 \<mapsto> y @ [47] @ mo @ [47] @ d @ ws @ h @ [58] @ mi @ [58] @ se)"
    by blast
  have "normalize s = Inr (timestamp y mo d h mi se)"
    using assms unfolding m by (rule normalize_caps)
  then show ?thesis using s dg by blast
qed

lemma normalize_no_match: "match date_rx s = None \<Longrightarrow> normalize s = Inr s"
  by (simp add: normalize_def)

lemma zero_padded_digits:
  assumes "digits 1 2 f"
  shows "digits 2 2 (zero_padded f)" "zero_padded (zero_padded f) = zero_padded f"
        "length (zero_padded f) = 2"
  using assms
  by (cases rule: digits12_cases; simp add: zero_padded_def digits_def is_digit_def)+

lemma zero_padded_field: "digits 1 2 f \<Longrightarrow> digits 1 2 (zero_padded f)"
  using zero_padded_digits(1)[of f] by (simp add: digits_def)

lemma timestamp_fixed:
  assumes "digits 4 4 y" "digits 1 2 mo" "digits 1 2 d"
          "digits 1 2 h" "digits 1 2 mi" "digits 1 2 se"
  shows "normalize (timestamp y mo d h mi se) = Inr (timestamp y mo d h mi se)"
proof -
  let ?p = zero_padded
  have sp: "spaces [32]" by (simp add: spaces_def is_space_def)
  have "normalize (y @ [47] @ ?p mo @ [47] @ ?p d @ [32] @ ?p h @ [58] @ ?p mi @ [58] @ ?p se)
          = Inr (timestamp y (?p mo) (?p d) (?p h) (?p mi) (?p se))"
    by (rule normalize_exact[OF assms(1) zero_padded_field[OF assms(2)] zero_padded_field[OF assms(3)]
          sp zero_padded_field[OF assms(4)] zero_padded_field[OF assms(5)] zero_padded_field[OF assms(6)]])
  then show ?thesis using assms by (simp add: timestamp_def zero_padded_digits(2))
qed

lemma normalize_returns: "\<exists>r. normalize s = Inr r"
proof (cases "match date_rx s")
  case None
  then show ?thesis using normalize_no_match by blast
next
  case (Some m)
  then show ?thesis using normalize_match by blast
qed

lemma lang_by_run: "([], c') \<in> set (run x w c) \<Longrightarrow> w \<in> lang x"
  using run_sem[of "[]" c' x w c] sem_lang by auto

lemma timestamp_length:
  assumes "digits 4 4 y" "digits 1 2 mo" "digits 1 2 d"
          "digits 1 2 h" "digits 1 2 mi" "digits 1 2 se"
  shows "length (timestamp y mo d h mi se) = 19"
  using assms(1) zero_padded_digits(3)[OF assms(2)] zero_padded_digits(3)[OF assms(3)]
    zero_padded_digits(3)[OF assms(4)] zero_padded_digits(3)[OF assms(5)]
    zero_padded_digits(3)[OF assms(6)]
  by (simp add: timestamp_def digits_def)

lemma not_a_date: "match date_rx (str ''not a date'') = None"
  by (simp add: str_def date_rx_def is_digit_def Let_def)

section \<open>Claims about DateUtils.normalize\<close>

text \<open>
  Claim C5. A string that is a four-digit year, a slash, a month of one or two digits, a
  slash, a day of one or two digits, a non-empty run of white space, and hour, minute and
  second of one or two digits each, separated by colons, is normalized to the timestamp
  with the year as it is, one space between date and time, and each of month, day, hour,
  minute and second padded with zeros to two digits. At \<open>2024/3/5 9:7:1\<close> the result is
  \<open>2024/03/05 09:07:01\<close>.
\<close>

theorem normalize_zero_pads:
  assumes "digits 4 4 y" "digits 1 2 mo" "digits 1 2 d" "spaces ws"
          "digits 1 2 h" "digits 1 2 mi" "digits 1 2 se"
  shows "normalize (y @ [47] @ mo @ [47] @ d @ ws @ h @ [58] @ mi @ [58] @ se)
           = Inr (y @ [47] @ zero_padded mo @ [47] @ zero_padded d @ [32]
                    @ zero_padded h @ [58] @ zero_padded mi @ [58] @ zero_padded se)"
  using normalize_exact[OF assms] by (simp add: timestamp_def)

theorem normalize_zero_pads_witness:
  "normalize (str ''2024/3/5 9:7:1'') = Inr (str ''2024/03/05 09:07:01'')"
  using normalize_zero_pads[of "str ''2024''" "str ''3''" "str ''5''" "str '' ''"
          "str ''9''" "str ''7''" "str ''1''"]
  by (simp add: str_def digits_def spaces_def is_digit_def is_space_def zero_padded_def)

text \<open>
  Claim C6. \<open>normalize\<close> is idempotent: on every string it returns a string (it does not
  throw), and normalizing that result returns it unchanged.
\<close>

theorem normalize_idempotent: "\<exists>r. normalize s = Inr r \<and> normalize r = Inr r"
proof (cases "match date_rx s")
  case None
  then have "normalize s = Inr s" by (rule normalize_no_match)
  then show ?thesis by blast
next
  case (Some m)
  from normalize_match[OF Some] obtain y mo d h mi se where
     "digits 4 4 y" "digits 1 2 mo" "digits 1 2 d" "digits 1 2 h" "digits 1 2 mi" "digits 1 2 se"
     "normalize s = Inr (timestamp y mo d h mi se)"
    by blast
  then show ?thesis using timestamp_fixed by blast
qed

text \<open>
  Claim C7. A string none of whose substrings is a word of the date expression is returned
  unchanged, without an error. At \<open>not a date\<close> the result is \<open>not a date\<close>.
\<close>

theorem normalize_unchanged_without_date:
  assumes "\<forall>pre w post. s = pre @ w @ post \<longrightarrow> w \<notin> lang date_rx"
  shows "normalize s = Inr s"
  using assms match_None_iff[of date_rx s] normalize_no_match by blast

theorem normalize_unchanged_without_date_witness:
  "normalize (str ''not a date'') = Inr (str ''not a date'')"
proof -
  have "\<forall>pre w post. str ''not a date'' = pre @ w @ post \<longrightarrow> w \<notin> lang date_rx"
    using not_a_date match_None_iff by blast
  then show ?thesis by (rule normalize_unchanged_without_date)
qed

text \<open>
  Claim C10. When some substring of the input is a word of the date expression, the result
  is the timestamp made of the six fields of a match that starts at or before that
  substring, and nothing else: the text before and after the match is dropped and the
  white space between date and time becomes one space. The result has 19 code units, and
  whenever there is text around the match or more than one white space inside it, the
  result differs from the input with its fields padded in place.
\<close>

theorem normalize_keeps_only_timestamp:
  assumes "s = pre @ w @ post" "w \<in> lang date_rx"
  shows "\<exists>pre' y mo d ws h mi se post'.
           s = pre' @ (y @ [47] @ mo @ [47] @ d @ ws @ h @ [58] @ mi @ [58] @ se) @ post'
         \<and> length pre' \<le> length pre
         \<and> digits 4 4 y \<and> digits 1 2 mo \<and> digits 1 2 d \<and> spaces ws
         \<and> digits 1 2 h \<and> digits 1 2 mi \<and> digits 1 2 se
         \<and> normalize s = Inr (timestamp y mo d h mi se)
         \<and> length (timestamp y mo d h mi se) = 19
         \<and> (pre' \<noteq> [] \<or> post' \<noteq> [] \<or> length ws \<noteq> 1 \<longrightarrow>
              normalize s \<noteq> Inr (pre' @ y @ [47] @ zero_padded mo @ [47] @ zero_padded d @ ws
                 @ zero_padded h @ [58] @ zero_padded mi @ [58] @ zero_padded se @ post'))"
proof -
  have "match date_rx s \<noteq> None" using assms match_None_iff by blast
  then obtain m where m: "match date_rx s = Some m" by blast
  obtain pre' v post' c where f: "found date_rx s m pre' v post' c"
    using match_Some_found[OF m] by blast
  then have s: "s = pre' @ v @ post'" and sem: "sem date_rx v Map.empty c"
      and mc: "m = c(0 \<mapsto> v)"
      and left: "length pre' \<le> length pre"
    using assms unfolding found_def by auto
  from sem_date_rx[OF sem] obtain y mo d ws h mi se where
      v: "v = y @ [47] @ mo @ [47] @ d @ ws @ h @ [58] @ mi @ [58] @ se"
     and dg: "digits 4 4 y" "digits 1 2 mo" "digits 1 2 d" "spaces ws"
         "digits 1 2 h" "digits 1 2 mi" "digits 1 2 se"
     and c: "c = [1 \<mapsto> y, 2 \<mapsto> mo, 3 \<mapsto> d, 4 \<mapsto> h, 5 \<mapsto> mi, 6 \<mapsto> se]"
    by blast
  have "m = (date_caps y mo d h mi se)(0 \<mapsto> v)" using mc c by (simp add: date_caps_def)
  then have n: "normalize s = Inr (timestamp y mo d h mi se)"
    using m normalize_caps by blast
  have len: "length (timestamp y mo d h mi se) = 19"
    using dg by (intro timestamp_length)
  have ws: "1 \<le> length ws" using dg(4) by (cases ws) (auto simp: spaces_def)
  have diff: "timestamp y mo d h mi se \<noteq>
                pre' @ y @ [47] @ zero_padded mo @ [47] @ zero_padded d @ ws
                 @ zero_padded h @ [58] @ zero_padded mi @ [58] @ zero_padded se @ post'"
    if "pre' \<noteq> [] \<or> post' \<noteq> [] \<or> length ws \<noteq> 1"
  proof -
    have "length (pre' @ y @ [47] @ zero_padded mo @ [47] @ zero_padded d @ ws
                 @ zero_padded h @ [58] @ zero_padded mi @ [58] @ zero_padded se @ post')
            = length pre' + 18 + length ws + length post'"
      using len by (simp add: timestamp_def)
    moreover have "length pre' + 18 + length ws + length post' \<noteq> 19"
      using that ws by (cases pre'; cases post') auto
    ultimately show ?thesis using len by metis
  qed
  show ?thesis
  proof (intro exI conjI)
    show "s = pre' @ (y @ [47] @ mo @ [47] @ d @ ws @ h @ [58] @ mi @ [58] @ se) @ post'"
      using s v by simp
    show "length pre' \<le> length pre" by (rule left)
    show "digits 4 4 y" "digits 1 2 mo" "digits 1 2 d" "spaces ws"
         "digits 1 2 h" "digits 1 2 mi" "digits 1 2 se" by (rule dg)+
    show "normalize s = Inr (timestamp y mo d h mi se)" by (rule n)
    show "length (timestamp y mo d h mi se) = 19" by (rule len)
    show "pre' \<noteq> [] \<or> post' \<noteq> [] \<or> length ws \<noteq> 1 \<longrightarrow>
              normalize s \<noteq> Inr (pre' @ y @ [47] @ zero_padded mo @ [47] @ zero_padded d @ ws
                 @ zero_padded h @ [58] @ zero_padded mi @ [58] @ zero_padded se @ post')"
      using diff n by simp
  qed
qed

theorem normalize_keeps_only_timestamp_witness:
  "normalize (str ''at 2024/3/5   9:7:1 JST'') = Inr (str ''2024/03/05 09:07:01'')"
proof -
  have w: "str ''2024/3/5   9:7:1'' \<in> lang date_rx"
    by (rule lang_by_run[of _ _ _ Map.empty])
       (simp add: str_def date_rx_def is_digit_def is_space_def Let_def)
  have s: "str ''at 2024/3/5   9:7:1 JST'' = str ''at '' @ str ''2024/3/5   9:7:1'' @ str '' JST''"
    by (simp add: str_def)
  from normalize_keeps_only_timestamp[OF s w]
  obtain r where "normalize (str ''at 2024/3/5   9:7:1 JST'') = Inr r" "length r = 19"
    by blast
  moreover have "normalize (str ''at 2024/3/5   9:7:1 JST'') = Inr (str ''2024/03/05 09:07:01'')"
    by (simp add: normalize_def str_def date_rx_def group_def padStart_def is_digit_def
          is_space_def Let_def)
  ultimately show ?thesis by simp
qed

section \<open>The extraction patterns\<close>

lemma sem_labelled:
  assumes "sem (labelled l) w c0 c"
  shows "\<exists>sp v. w = l @ sp @ v \<and> list_all is_space sp \<and> v \<noteq> [] \<and> list_all is_dot v
           \<and> c = c0(1 \<mapsto> v)"
proof -
  from assms obtain sp v where
    "w = l @ sp @ v" "sp \<in> lang (Rep Space 0 None)" "v \<in> lang (Rep Dot 1 None)" "c = c0(1 \<mapsto> v)"
    unfolding labelled_def sem.simps by blast
  moreover have "v \<noteq> []" using calculation(3) by auto
  ultimately show ?thesis by (auto simp: list_all_iff)
qed

lemma sem_amount_pattern:
  assumes "sem amount_pattern w c0 c"
  shows "\<exists>sp1 v sp2. w = [25903, 25588, 37329, 38989, 58] @ sp1 @ v @ sp2 @ [20870]
           \<and> v \<noteq> [] \<and> list_all (in_cls DigitComma) v \<and> c = c0(1 \<mapsto> v)"
proof -
  from assms obtain sp1 v sp2 where
    "w = [25903, 25588, 37329, 38989, 58] @ sp1 @ v @ sp2 @ [20870]"
    "v \<in> lang (Rep DigitComma 1 None)" "c = c0(1 \<mapsto> v)"
    unfolding amount_pattern_def sem.simps by blast
  moreover have "v \<noteq> []" using calculation(2) by auto
  ultimately show ?thesis by (auto simp: list_all_iff)
qed

lemma match_group1:
  assumes "match x s = Some m" "\<And>w c. sem x w Map.empty c \<Longrightarrow> \<exists>v. c 1 = Some v \<and> P v"
  shows "\<exists>v. group m 1 = Inr v \<and> m 1 = Some v \<and> P v"
proof -
  obtain pre w post c where "found x s m pre w post c"
    using match_Some_found[OF assms(1)] by blast
  then have "sem x w Map.empty c" "m = c(0 \<mapsto> w)" unfolding found_def by auto
  then show ?thesis using assms(2) by (fastforce simp: group_def)
qed

lemma match_labelled:
  assumes "match (labelled l) s = Some m"
  shows "\<exists>v. group m 1 = Inr v \<and> m 1 = Some v \<and> (v \<noteq> [] \<and> list_all is_dot v)"
  using assms
proof (rule match_group1)
  fix w c assume "sem (labelled l) w Map.empty c"
  from sem_labelled[OF this] show "\<exists>v. c 1 = Some v \<and> v \<noteq> [] \<and> list_all is_dot v" by auto
qed

lemma match_amount:
  assumes "match amount_pattern s = Some m"
  shows "\<exists>v. group m 1 = Inr v \<and> m 1 = Some v \<and> (v \<noteq> [] \<and> list_all (in_cls DigitComma) v)"
  using assms
proof (rule match_group1)
  fix w c assume "sem amount_pattern w Map.empty c"
  from sem_amount_pattern[OF this]
  show "\<exists>v. c 1 = Some v \<and> v \<noteq> [] \<and> list_all (in_cls DigitComma) v" by auto
qed

lemma patterns_labelled:
  "date_pattern = labelled [25903, 25588, 21463, 20184, 26085, 26178, 58]"
  "name_pattern = labelled [25903, 25588, 20184, 32773, 21517, 58]"
  "frequency_pattern = labelled [25903, 25588, 38971, 24230, 58]"
  by (simp_all add: labelled_def date_pattern_def name_pattern_def frequency_pattern_def)

lemma trim_no_space: "list_all (\<lambda>c. \<not> is_space c) v \<Longrightarrow> trim v = v"
proof -
  assume a: "list_all (\<lambda>c. \<not> is_space c) v"
  have d: "dropWhile is_space u = u" if "list_all (\<lambda>c. \<not> is_space c) u" for u
    using that by (cases u) auto
  have "list_all (\<lambda>c. \<not> is_space c) (rev v)" using a by (simp add: list_all_iff)
  then show ?thesis using a by (simp add: trim_def d)
qed

lemma digit_comma_no_space: "in_cls DigitComma c \<Longrightarrow> \<not> is_space c"
  by (auto simp: is_digit_def is_space_def)

lemma remove_commas_digits:
  "list_all (in_cls DigitComma) v \<Longrightarrow> list_all is_digit (remove_commas v)"
  by (induction v) (auto simp: remove_commas_def)

lemma to_double_cases: "(\<exists>v. to_double n = Num v \<and> 0 \<le> v) \<or> to_double n = PosInfinity"
  by (auto simp: to_double_def Let_def)

lemma parseInt10_digits:
  assumes "list_all is_digit ds"
  shows "parseInt10 ds = (if ds = [] then NaN else to_double (dec_value ds))"
proof (cases ds)
  case Nil
  then show ?thesis by (simp add: parseInt10_def)
next
  case (Cons a r)
  have a: "is_digit a" using assms Cons by simp
  then have sp: "\<not> is_space a" by (rule digit_not_space)
  have sg: "a \<noteq> 45" "a \<noteq> 43" using a by (auto simp: is_digit_def)
  have tw: "takeWhile is_digit r = r" using assms Cons by (simp add: list_all_iff)
  have "parseInt10 ds = (case to_double (dec_value ds) of
                           Num v \<Rightarrow> Num v | PosInfinity \<Rightarrow> PosInfinity | other \<Rightarrow> other)"
    using sp sg a by (simp add: parseInt10_def Let_def Cons tw split: number.splits)
  also have "\<dots> = to_double (dec_value ds)"
    using to_double_cases[of "dec_value ds"] by auto
  finally show ?thesis using Cons by simp
qed

lemma amount_parse:
  assumes "list_all (in_cls DigitComma) v"
  shows "parseInt10 (remove_commas (trim v))
           = (if remove_commas v = [] then NaN else to_double (dec_value (remove_commas v)))"
proof -
  have "list_all (\<lambda>c. \<not> is_space c) v"
    using assms digit_comma_no_space by (auto simp: list_all_iff)
  then have "trim v = v" by (rule trim_no_space)
  then show ?thesis using parseInt10_digits[OF remove_commas_digits[OF assms]] by simp
qed

lemma split_char_first: "\<exists>ps. split_char sep s = takeWhile (\<lambda>c. c \<noteq> sep) s # ps"
  by (induction s) auto

lemma first_piece_split_char:
  "first_piece (split_char sep s) = Inr (takeWhile (\<lambda>c. c \<noteq> sep) s)"
  using split_char_first[of sep s] by (auto simp: first_piece_def)

lemma run_space_run_Nil:
  "run space_run s Map.empty = [] \<longleftrightarrow> \<not> (\<exists>x y r. s = x # y # r \<and> is_space x \<and> is_space y)"
proof (cases s)
  case Nil then show ?thesis by (simp add: space_run_def Let_def)
next
  case (Cons x t)
  show ?thesis
  proof (cases t)
    case Nil then show ?thesis using Cons by (simp add: space_run_def Let_def)
  next
    case (Cons y r)
    then show ?thesis using \<open>s = x # t\<close> by (simp add: space_run_def Let_def)
  qed
qed

lemma run_space_run_shorter:
  "(rest, c) \<in> set (run space_run s Map.empty) \<Longrightarrow> length rest < length s"
  unfolding space_run_def run_Rep_set
  using length_takeWhile_le[of "in_cls Space" s] by auto

lemma split_from_first:
  "\<exists>ps. split_from space_run acc s = (rev acc @ before_space_run s) # ps"
proof (induction s arbitrary: acc rule: before_space_run.induct)
  case 1
  show ?case by simp
next
  case (2 v)
  have "run space_run [v] Map.empty = []" using run_space_run_Nil by blast
  then show ?case by (simp del: run.simps)
next
  case (3 x y s)
  show ?case
  proof (cases "is_space x \<and> is_space y")
    case True
    then have "run space_run (x # y # s) Map.empty \<noteq> []" using run_space_run_Nil by blast
    then obtain rest c alts where r: "run space_run (x # y # s) Map.empty = (rest, c) # alts"
      by (cases "run space_run (x # y # s) Map.empty") auto
    then have "length rest < length (x # y # s)"
      using run_space_run_shorter[of rest c "x # y # s"] by simp
    then show ?thesis using r True by (simp del: run.simps)
  next
    case False
    then have "run space_run (x # y # s) Map.empty = []" using run_space_run_Nil by blast
    moreover obtain ps where "split_from space_run (x # acc) (y # s)
        = (rev (x # acc) @ before_space_run (y # s)) # ps"
      using 3[OF False] by blast
    ultimately show ?thesis using False by (simp del: run.simps)
  qed
qed

lemma first_piece_split_rx:
  "first_piece (split_rx space_run s) = Inr (before_space_run s)"
proof (cases s)
  case Nil
  then show ?thesis by (simp add: split_rx_def first_piece_def space_run_def Let_def)
next
  case (Cons a t)
  obtain ps where "split_from space_run [] s = before_space_run s # ps"
    using split_from_first[of "[]" s] by auto
  then show ?thesis using Cons by (simp add: split_rx_def first_piece_def)
qed

lemma to_double_not_NaN: "to_double n \<noteq> NaN"
  using to_double_cases[of n] by auto

lemma extract_no_match:
  assumes "match date_pattern body = None \<or> match name_pattern body = None
         \<or> match amount_pattern body = None \<or> match frequency_pattern body = None"
  shows "extractDonationDetails body = Inr None"
  using assms by (auto simp: extractDonationDetails_def split: option.splits)

lemma extract_all_match:
  assumes "match date_pattern body = Some md" "match name_pattern body = Some mn"
          "match amount_pattern body = Some ma" "match frequency_pattern body = Some mf"
  shows "\<exists>r nameText amountText freqText.
           mn 1 = Some nameText \<and> ma 1 = Some amountText \<and> mf 1 = Some freqText
         \<and> list_all (in_cls DigitComma) amountText
         \<and> parseInt10 (remove_commas (trim amountText))
              = (if remove_commas amountText = [] then NaN
                 else to_double (dec_value (remove_commas amountText)))
         \<and> extractDonationDetails body =
             (if remove_commas amountText = [] then Inr None
              else Inr (Some \<lparr>date = r, name = trim (before_space_run nameText),
                               amount = to_double (dec_value (remove_commas amountText)),
                               frequency = trim (takeWhile (\<lambda>c. c \<noteq> 32) freqText)\<rparr>))"
proof -
  obtain rd where rd: "group md 1 = Inr rd"
    using match_labelled assms(1) unfolding patterns_labelled by blast
  obtain nm where nm: "group mn 1 = Inr nm" "mn 1 = Some nm"
    using match_labelled assms(2) unfolding patterns_labelled by blast
  obtain fq where fq: "group mf 1 = Inr fq" "mf 1 = Some fq"
    using match_labelled assms(4) unfolding patterns_labelled by blast
  obtain ad where ad: "group ma 1 = Inr ad" "ma 1 = Some ad" "list_all (in_cls DigitComma) ad"
    using match_amount[OF assms(3)] by blast
  obtain r where r: "normalize (trim rd) = Inr r" using normalize_returns by blast
  note p = amount_parse[OF ad(3)]
  have "extractDonationDetails body =
             (if remove_commas ad = [] then Inr None
              else Inr (Some \<lparr>date = r, name = trim (before_space_run nm),
                               amount = to_double (dec_value (remove_commas ad)),
                               frequency = trim (takeWhile (\<lambda>c. c \<noteq> 32) fq)\<rparr>))"
    unfolding extractDonationDetails_def
    by (simp add: assms rd nm(1) fq(1) ad(1) r p first_piece_split_rx first_piece_split_char
          to_double_not_NaN Let_def del: One_nat_def)
  then show ?thesis using nm(2) ad(2,3) fq(2) p by blast
qed

lemmas eval_defs = str_def date_rx_def group_def padStart_def is_digit_def
  is_space_def is_dot_def Let_def normalize_def extractDonationDetails_def date_pattern_def
  name_pattern_def amount_pattern_def frequency_pattern_def trim_def parseInt10_def
  remove_commas_def dec_value_def to_double_def split_rx_def space_run_def first_piece_def
  captured_def

lemma captured_eq: "match r s = Some m \<Longrightarrow> captured r s = m 1"
  by (simp add: captured_def)

lemma process_message_skip:
  assumes "msg_body m = Inr body" "extractDonationDetails body = Inr None"
  shows "process_message onDonationFound m w =
           (Return (), w\<lparr>calls := calls w @ [GetPlainBody (msg_id m)],
                         console := console w @ [Warn_extract_failed (msg_id m)]\<rparr>)"
  using assms
  by (simp add: process_message_def try_catch_def and_then_def getPlainBody_def log_line_def)

section \<open>Claims about extractDonationDetails\<close>

text \<open>
  Claim C3. Extraction never throws. It yields no result exactly when one of the four
  patterns does not match the body, or the captured amount text, trimmed and without its
  commas, parses to \<open>NaN\<close>. A message whose body yields no result is only logged as a
  warning: whatever the callback is, it is not called, and no call other than the reading of
  the body is issued, so the message is not marked read.
\<close>

theorem extraction_skips_incomplete:
  "\<exists>r. extractDonationDetails body = Inr r
     \<and> (r = None \<longleftrightarrow>
          (match date_pattern body = None \<or> match name_pattern body = None
           \<or> match amount_pattern body = None \<or> match frequency_pattern body = None
           \<or> (\<exists>t. captured amount_pattern body = Some t
                   \<and> parseInt10 (remove_commas (trim t)) = NaN)))
     \<and> (r = None \<and> msg_body m = Inr body \<longrightarrow>
          process_message onDonationFound m w =
            (Return (), w\<lparr>calls := calls w @ [GetPlainBody (msg_id m)],
                          console := console w @ [Warn_extract_failed (msg_id m)]\<rparr>))"
proof (cases "match date_pattern body = None \<or> match name_pattern body = None
           \<or> match amount_pattern body = None \<or> match frequency_pattern body = None")
  case True
  then have "extractDonationDetails body = Inr None" by (rule extract_no_match)
  then show ?thesis using True process_message_skip by blast
next
  case False
  then obtain md mn ma mf where ms:
      "match date_pattern body = Some md" "match name_pattern body = Some mn"
      "match amount_pattern body = Some ma" "match frequency_pattern body = Some mf"
    by auto
  from extract_all_match[OF ms] obtain r nameText amountText freqText where
      a: "ma 1 = Some amountText"
     and p: "parseInt10 (remove_commas (trim amountText))
              = (if remove_commas amountText = [] then NaN
                 else to_double (dec_value (remove_commas amountText)))"
     and e: "extractDonationDetails body =
             (if remove_commas amountText = [] then Inr None
              else Inr (Some \<lparr>date = r, name = trim (before_space_run nameText),
                               amount = to_double (dec_value (remove_commas amountText)),
                               frequency = trim (takeWhile (\<lambda>c. c \<noteq> 32) freqText)\<rparr>))"
    by blast
  have c: "captured amount_pattern body = Some amountText"
    using captured_eq[OF ms(3)] a by simp
  show ?thesis
  proof (cases "remove_commas amountText = []")
    case True
    then have "extractDonationDetails body = Inr None" using e by simp
    moreover have "parseInt10 (remove_commas (trim amountText)) = NaN" using p True by simp
    ultimately show ?thesis using c process_message_skip by blast
  next
    case nonempty: False
    then have "parseInt10 (remove_commas (trim amountText)) \<noteq> NaN"
      using p to_double_not_NaN by simp
    then show ?thesis using e nonempty c False by auto
  qed
qed

theorem extraction_skips_incomplete_witness:
  "extractDonationDetails no_frequency_body = Inr None
   \<and> extractDonationDetails no_digit_body = Inr None
   \<and> process_message (\<lambda>details messageId. throw TypeError)
        \<lparr>msg_id = str ''m1'', msg_body = Inr no_frequency_body\<rparr> empty_world
      = (Return (), \<lparr>calls = [GetPlainBody (str ''m1'')],
                     console = [Warn_extract_failed (str ''m1'')], sheet = None\<rparr>)"
proof -
  have f: "match frequency_pattern no_frequency_body = None"
    by (simp add: no_frequency_body_def eval_defs)
  have n: "captured amount_pattern no_digit_body = Some (str '','')"
          "parseInt10 (remove_commas (trim (str '',''))) = NaN"
    by (simp_all add: no_digit_body_def eval_defs)
  have 1: "extractDonationDetails no_frequency_body = Inr None"
    using extraction_skips_incomplete[of no_frequency_body] f by auto
  have 2: "extractDonationDetails no_digit_body = Inr None"
    using extraction_skips_incomplete[of no_digit_body] n by auto
  have 3: "process_message (\<lambda>details messageId. throw TypeError)
        \<lparr>msg_id = str ''m1'', msg_body = Inr no_frequency_body\<rparr> empty_world
      = (Return (), \<lparr>calls = [GetPlainBody (str ''m1'')],
                     console = [Warn_extract_failed (str ''m1'')], sheet = None\<rparr>)"
    using extraction_skips_incomplete[of no_frequency_body
            "\<lparr>msg_id = str ''m1'', msg_body = Inr no_frequency_body\<rparr>"
            "\<lambda>details messageId. throw TypeError" empty_world] 1
    by (simp add: empty_world_def)
  show ?thesis using 1 2 3 by simp
qed

text \<open>
  Claim C4, amended. When extraction yields details, the name is the captured name text
  cut before the first run of two or more white space code units, then trimmed; the
  frequency is the captured frequency text cut at the first space, then trimmed; the
  amount is the double nearest to the decimal value of the captured amount text without
  its commas, which is that value itself, a non-negative integer, whenever the value is
  below \<open>2 ^ 53\<close>. The amount text \<open>12,345\<close> yields 12345.
\<close>

theorem extracted_fields:
  assumes "extractDonationDetails body = Inr (Some dt)"
  shows "\<exists>nameText amountText freqText.
           captured name_pattern body = Some nameText
         \<and> captured amount_pattern body = Some amountText
         \<and> captured frequency_pattern body = Some freqText
         \<and> name dt = trim (before_space_run nameText)
         \<and> frequency dt = trim (takeWhile (\<lambda>c. c \<noteq> 32) freqText)
         \<and> amount dt = to_double (dec_value (remove_commas amountText))
         \<and> (dec_value (remove_commas amountText) < 2 ^ 53 \<longrightarrow>
              amount dt = Num (int (dec_value (remove_commas amountText))))"
proof -
  have "\<not> (match date_pattern body = None \<or> match name_pattern body = None
           \<or> match amount_pattern body = None \<or> match frequency_pattern body = None)"
    using assms extract_no_match by fastforce
  then obtain md mn ma mf where ms:
      "match date_pattern body = Some md" "match name_pattern body = Some mn"
      "match amount_pattern body = Some ma" "match frequency_pattern body = Some mf"
    by auto
  from extract_all_match[OF ms] obtain r nameText amountText freqText where
      g: "mn 1 = Some nameText" "ma 1 = Some amountText" "mf 1 = Some freqText"
     and e: "extractDonationDetails body =
             (if remove_commas amountText = [] then Inr None
              else Inr (Some \<lparr>date = r, name = trim (before_space_run nameText),
                               amount = to_double (dec_value (remove_commas amountText)),
                               frequency = trim (takeWhile (\<lambda>c. c \<noteq> 32) freqText)\<rparr>))"
    by blast
  have dt: "dt = \<lparr>date = r, name = trim (before_space_run nameText),
                  amount = to_double (dec_value (remove_commas amountText)),
                  frequency = trim (takeWhile (\<lambda>c. c \<noteq> 32) freqText)\<rparr>"
    using e assms by (simp split: if_splits)
  show ?thesis
  proof (intro exI conjI)
    show "captured name_pattern body = Some nameText" using captured_eq[OF ms(2)] g by simp
    show "captured amount_pattern body = Some amountText" using captured_eq[OF ms(3)] g by simp
    show "captured frequency_pattern body = Some freqText" using captured_eq[OF ms(4)] g by simp
    show "name dt = trim (before_space_run nameText)" using dt by simp
    show "frequency dt = trim (takeWhile (\<lambda>c. c \<noteq> 32) freqText)" using dt by simp
    show "amount dt = to_double (dec_value (remove_commas amountText))" using dt by simp
    show "dec_value (remove_commas amountText) < 2 ^ 53 \<longrightarrow>
              amount dt = Num (int (dec_value (remove_commas amountText)))"
      using dt by (simp add: to_double_def)
  qed
qed

theorem extracted_fields_witness:
  "extractDonationDetails sample_body =
     Inr (Some \<lparr>date = str ''2024/03/05 09:07:01'', name = str ''Taro Yamada'',
                 amount = Num 12345, frequency = str ''monthly''\<rparr>)
   \<and> captured name_pattern sample_body = Some (str ''Taro Yamada  (id 7)'')
   \<and> captured amount_pattern sample_body = Some (str ''12,345'')
   \<and> captured frequency_pattern sample_body = Some (str ''monthly (x)'')
   \<and> trim (before_space_run (str ''Taro Yamada  (id 7)'')) = str ''Taro Yamada''
   \<and> trim (takeWhile (\<lambda>c. c \<noteq> 32) (str ''monthly (x)'')) = str ''monthly''
   \<and> to_double (dec_value (remove_commas (str ''12,345''))) = Num 12345"
proof -
  have e: "extractDonationDetails sample_body =
     Inr (Some \<lparr>date = str ''2024/03/05 09:07:01'', name = str ''Taro Yamada'',
                 amount = Num 12345, frequency = str ''monthly''\<rparr>)"
    by (simp add: sample_body_def eval_defs)
  have c: "captured name_pattern sample_body = Some (str ''Taro Yamada  (id 7)'')"
    "captured amount_pattern sample_body = Some (str ''12,345'')"
    "captured frequency_pattern sample_body = Some (str ''monthly (x)'')"
    by (simp_all add: sample_body_def eval_defs)
  from extracted_fields[OF e] c show ?thesis using e by simp
qed

text \<open>
  The claim as it was stated, for every body, fails: a body whose amount line reads
  9007199254740993 yen yields the amount 9007199254740992.
\<close>

theorem amount_not_exact_counterexample:
  "extractDonationDetails big_amount_body =
     Inr (Some \<lparr>date = str ''2024/03/05 09:07:01'', name = str ''Taro'',
                 amount = Num 9007199254740992, frequency = str ''monthly''\<rparr>)
   \<and> captured amount_pattern big_amount_body = Some (str ''9007199254740993'')
   \<and> dec_value (remove_commas (str ''9007199254740993'')) = 9007199254740993
   \<and> Num 9007199254740992 \<noteq> Num 9007199254740993"
  by (simp add: big_amount_body_def eval_defs bitlen.simps)

section \<open>The services and the orchestrator\<close>

lemmas action_defs = ret_def throw_def and_then_def then_do_def try_catch_def log_line_def
  invoke_def

lemma marked_read_append: "marked_read (xs @ ys) = marked_read xs @ marked_read ys"
  by (induction xs rule: marked_read.induct) auto

lemma bodies_read_append: "bodies_read (xs @ ys) = bodies_read xs @ bodies_read ys"
  by (induction xs rule: bodies_read.induct) auto

lemma sink_calls_quiet:
  "list_all sink_call cs \<Longrightarrow> marked_read cs = [] \<and> bodies_read cs = [] \<and> Search \<notin> set cs"
  by (induction cs rule: marked_read.induct) auto

lemma send_effect:
  "\<exists>r entry. sendDonationNotification P url d a f w =
     (r, w\<lparr>calls := calls w @ [Fetch url \<lparr>payload_date = d,
                                            payload_amount = toLocaleString P a @ [20870],
                                            payload_frequency = f\<rparr>],
           console := console w @ [entry]\<rparr>)"
  by (auto simp: sendDonationNotification_def action_defs Let_def split: option.splits)

lemma getSheet_effect:
  "getSheet P svc w =
     (case open_error P w (fst svc) (snd svc) of
        None \<Rightarrow> (Return (sheet w \<noteq> None), w\<lparr>calls := calls w @ [OpenById (fst svc) (snd svc)]\<rparr>)
      | Some e \<Rightarrow> (Return False, w\<lparr>calls := calls w @ [OpenById (fst svc) (snd svc)],
                                    console := console w @ [Error_getSheet e]\<rparr>))"
  by (auto simp: getSheet_def action_defs split: option.splits)

lemma record_effect:
  "\<exists>r new lines. recordDonation P svc d n a f w =
     (r, w\<lparr>calls := calls w @ new, console := console w @ lines,
           sheet := (if r = Return () then map_option (\<lambda>rows. rows @ [[(case parseDate (new_Date P) d of
                                Some parsedDate \<Rightarrow> DateCell parsedDate
                              | None \<Rightarrow> StrCell d), StrCell n, NumCell a, StrCell f]]) (sheet w) else sheet w)\<rparr>)
     \<and> list_all sink_call new"
proof (cases "open_error P w (fst svc) (snd svc)")
  case (Some e)
  show ?thesis
    apply (rule exI[of _ "Throw (SheetNotFound (snd svc))"])
    apply (rule exI[of _ "[OpenById (fst svc) (snd svc)]"])
    apply (rule exI[of _ "[Error_getSheet e, Error_record (SheetNotFound (snd svc))]"])
    using Some by (simp add: recordDonation_def getSheet_effect action_defs)
next
  case None
  show ?thesis
  proof (cases "sheet w")
    case no: None
    show ?thesis
      apply (rule exI[of _ "Throw (SheetNotFound (snd svc))"])
      apply (rule exI[of _ "[OpenById (fst svc) (snd svc)]"])
      apply (rule exI[of _ "[Error_record (SheetNotFound (snd svc))]"])
      using None no by (simp add: recordDonation_def getSheet_effect action_defs)
  next
    case (Some rows)
    define row where "row = [(case parseDate (new_Date P) d of
                                Some parsedDate \<Rightarrow> DateCell parsedDate
                              | None \<Rightarrow> StrCell d), StrCell n, NumCell a, StrCell f]"
    define w1 where "w1 = w\<lparr>calls := calls w @ [OpenById (fst svc) (snd svc)]\<rparr>"
    show ?thesis
    proof (cases "append_error P w1 row")
      case ok: None
      show ?thesis
        apply (rule exI[of _ "Return ()"])
        apply (rule exI[of _ "[OpenById (fst svc) (snd svc), AppendRow row]"])
        apply (rule exI[of _ "[Log_recorded n a]"])
        using None Some ok unfolding row_def w1_def
        by (simp add: recordDonation_def getSheet_effect appendRow_def action_defs Let_def)
    next
      case (Some e)
      show ?thesis
        apply (rule exI[of _ "Throw e"])
        apply (rule exI[of _ "[OpenById (fst svc) (snd svc), AppendRow row]"])
        apply (rule exI[of _ "[Error_record e]"])
        using None \<open>sheet w = Some rows\<close> Some unfolding row_def w1_def
        by (simp add: recordDonation_def getSheet_effect appendRow_def action_defs Let_def)
    qed
  qed
qed

lemma notify_step_effect:
  "\<exists>r new lines. notify_step P app details w =
       (r, w\<lparr>calls := calls w @ new, console := console w @ lines\<rparr>)
     \<and> list_all sink_call new"
proof (cases "slackService app")
  case None
  have "notify_step P app details w = (Return (), w\<lparr>calls := calls w @ [], console := console w @ []\<rparr>)"
    using None by (simp add: notify_step_def ret_def)
  moreover have "list_all sink_call []" by simp
  ultimately show ?thesis by blast
next
  case (Some url)
  obtain r entry where "sendDonationNotification P url (date details) (amount details)
      (frequency details) w =
     (r, w\<lparr>calls := calls w @ [Fetch url \<lparr>payload_date = date details,
                payload_amount = toLocaleString P (amount details) @ [20870],
                payload_frequency = frequency details\<rparr>],
           console := console w @ [entry]\<rparr>)"
    using send_effect by blast
  then have "notify_step P app details w =
     (r, w\<lparr>calls := calls w @ [Fetch url \<lparr>payload_date = date details,
                payload_amount = toLocaleString P (amount details) @ [20870],
                payload_frequency = frequency details\<rparr>],
           console := console w @ [entry]\<rparr>)"
    using Some by (simp add: notify_step_def)
  moreover have "list_all sink_call [Fetch url \<lparr>payload_date = date details,
                payload_amount = toLocaleString P (amount details) @ [20870],
                payload_frequency = frequency details\<rparr>]" by simp
  ultimately show ?thesis by blast
qed

lemma record_step_effect:
  "\<exists>r new lines sh. record_step P app details w =
       (r, w\<lparr>calls := calls w @ new, console := console w @ lines, sheet := sh\<rparr>)
     \<and> list_all sink_call new"
proof (cases "sheetsService app")
  case None
  have "record_step P app details w =
          (Return (), w\<lparr>calls := calls w @ [], console := console w @ [], sheet := sheet w\<rparr>)"
    using None by (simp add: record_step_def ret_def)
  moreover have "list_all sink_call []" by simp
  ultimately show ?thesis by blast
next
  case (Some svc)
  then have "record_step P app details w =
     recordDonation P svc (date details) (name details) (amount details) (frequency details) w"
    by (simp add: record_step_def)
  then show ?thesis
    using record_effect[of P svc "date details" "name details" "amount details"
            "frequency details" w]
    by metis
qed

lemma sinks_effect:
  "\<exists>r new lines sh. sinks P app details w =
       (r, w\<lparr>calls := calls w @ new, console := console w @ lines, sheet := sh\<rparr>)
     \<and> list_all sink_call new"
proof -
  obtain r1 new1 lines1 where n: "notify_step P app details w =
       (r1, w\<lparr>calls := calls w @ new1, console := console w @ lines1\<rparr>)"
       "list_all sink_call new1"
    using notify_step_effect by blast
  define w1 where "w1 = w\<lparr>calls := calls w @ new1, console := console w @ lines1\<rparr>"
  show ?thesis
  proof (cases r1)
    case (Throw e)
    have "sinks P app details w =
            (r1, w\<lparr>calls := calls w @ new1, console := console w @ lines1, sheet := sheet w\<rparr>)"
      using n(1) Throw by (simp add: sinks_def then_do_def and_then_def)
    then show ?thesis using n(2) by blast
  next
    case (Return u)
    obtain r2 new2 lines2 sh where r: "record_step P app details w1 =
       (r2, w1\<lparr>calls := calls w1 @ new2, console := console w1 @ lines2, sheet := sh\<rparr>)"
       "list_all sink_call new2"
      using record_step_effect by blast
    have "sinks P app details w =
       (r2, w\<lparr>calls := calls w @ (new1 @ new2), console := console w @ (lines1 @ lines2),
              sheet := sh\<rparr>)"
      using n(1) Return r(1) unfolding w1_def
      by (simp add: sinks_def then_do_def and_then_def)
    moreover have "list_all sink_call (new1 @ new2)" using n(2) r(2) by simp
    ultimately show ?thesis by blast
  qed
qed

lemma then_do_assoc: "then_do a (then_do b c) = then_do (then_do a b) c"
  by (rule ext) (simp add: then_do_def and_then_def split: prod.splits outcome.splits)

lemma processDonation_sinks:
  "processDonation P app details messageId =
     then_do (log_line (Log_processing details))
       (try_catch
          (then_do (sinks P app details)
             (then_do (markRead P messageId) (log_line (Log_processed messageId))))
          (\<lambda>e. log_line (Error_processing messageId e)))"
  by (simp add: processDonation_def sinks_def then_do_assoc)

lemma marked_read_mark_calls:
  "marked_read (mark_calls P w messageId)
     = (if getMessage_error P w messageId = None then [messageId] else [])"
  "bodies_read (mark_calls P w messageId) = []"
  by (simp_all add: mark_calls_def)

lemma processDonation_effect:
  assumes "sinks P app details (w\<lparr>console := console w @ [Log_processing details]\<rparr>) = (r, w1)"
  shows "\<exists>lines. processDonation P app details messageId w =
           (Return (), w1\<lparr>calls := calls w1 @ (if r = Return () then mark_calls P w1 messageId else []),
                           console := console w1 @ lines\<rparr>)"
proof (cases r)
  case (Throw e)
  have "processDonation P app details messageId w =
          (Return (), w1\<lparr>calls := calls w1 @ [], console := console w1 @ [Error_processing messageId e]\<rparr>)"
    using assms Throw by (simp add: processDonation_sinks action_defs)
  then show ?thesis using Throw by auto
next
  case (Return u)
  show ?thesis
  proof (cases "getMessage_error P w1 messageId")
    case (Some e)
    have "processDonation P app details messageId w =
          (Return (), w1\<lparr>calls := calls w1 @ [GetMessageById messageId],
                          console := console w1 @ [Error_processing messageId e]\<rparr>)"
      using assms Return Some by (simp add: processDonation_sinks markRead_def action_defs)
    then show ?thesis using Return Some by (auto simp: mark_calls_def)
  next
    case None
    show ?thesis
    proof (cases "markRead_error P (w1\<lparr>calls := calls w1 @ [GetMessageById messageId]\<rparr>) messageId")
      case ok: None
      have "processDonation P app details messageId w =
          (Return (), w1\<lparr>calls := calls w1 @ [GetMessageById messageId, MarkRead messageId],
                          console := console w1 @ [Log_processed messageId]\<rparr>)"
        using assms Return None ok by (simp add: processDonation_sinks markRead_def action_defs)
      then show ?thesis using Return None by (auto simp: mark_calls_def)
    next
      case (Some e)
      have "processDonation P app details messageId w =
          (Return (), w1\<lparr>calls := calls w1 @ [GetMessageById messageId, MarkRead messageId],
                          console := console w1 @ [Error_processing messageId e]\<rparr>)"
        using assms Return None Some by (simp add: processDonation_sinks markRead_def action_defs)
      then show ?thesis using Return None by (auto simp: mark_calls_def)
    qed
  qed
qed



lemmas world_defs = processDonation_def notify_step_def record_step_def sinks_def
  sendDonationNotification_def recordDonation_def getSheet_def appendRow_def getLastRow_def
  markRead_def ensureHeaders_def parseDate_def action_defs reliable_def both_sinks_def
  sample_details_def empty_sheet_world_def empty_world_def quota_exceeded_def
  lost_message_def Let_def



lemma ensureHeaders_cases:
  fixes P svc w
  defines "w1 \<equiv> w\<lparr>calls := calls w @ [OpenById (fst svc) (snd svc)]\<rparr>"
  defines "w2 \<equiv> w\<lparr>calls := calls w @ [OpenById (fst svc) (snd svc), GetLastRow]\<rparr>"
  defines "w3 \<equiv> w\<lparr>calls := calls w @ [OpenById (fst svc) (snd svc), GetLastRow, AppendRow header_row]\<rparr>"
  shows "ensureHeaders P svc w =
     (case open_error P w (fst svc) (snd svc) of
        Some e \<Rightarrow> (Return (), w1\<lparr>console := console w @ [Error_getSheet e]\<rparr>)
      | None \<Rightarrow>
         (case sheet w of
            None \<Rightarrow> (Return (), w1)
          | Some rows \<Rightarrow>
             (case lastRow_error P w1 of
                Some e \<Rightarrow> (Return (), w2\<lparr>console := console w @ [Error_headers e]\<rparr>)
              | None \<Rightarrow>
                 if rows \<noteq> [] then (Return (), w2)
                 else (case append_error P w2 header_row of
                         Some e \<Rightarrow> (Return (), w3\<lparr>console := console w @ [Error_headers e]\<rparr>)
                       | None \<Rightarrow> (Return (), w3\<lparr>sheet := Some [header_row],
                                                  console := console w @ [Log_header_added]\<rparr>)))))"
  unfolding w1_def w2_def w3_def
  by (simp add: ensureHeaders_def getSheet_effect getLastRow_def appendRow_def action_defs
        split: option.splits)

lemma initializeServices_returns:
  "\<exists>app w''. initializeServices P config w = (Return app, w'') \<and> configService app = config"
proof -
  have e: "\<exists>w'. ensureHeaders P s v = (Return (), w')" for s v
    unfolding ensureHeaders_cases by (auto split: option.splits)
  show ?thesis
  proof (cases "spreadsheetId config")
    case None
    then show ?thesis by (simp add: initializeServices_def ret_def)
  next
    case sid: (Some sid)
    show ?thesis
    proof (cases "sheetName config")
      case None
      then show ?thesis using sid by (simp add: initializeServices_def ret_def)
    next
      case (Some sname)
      obtain w' where "ensureHeaders P (sid, sname) w = (Return (), w')" using e by blast
      then show ?thesis using sid Some
        by (simp add: initializeServices_def ret_def then_do_def and_then_def)
    qed
  qed
qed

lemma ensureHeaders_effect:
  "\<exists>w' new. ensureHeaders P svc w = (Return (), w') \<and> calls w' = calls w @ new
     \<and> list_all sink_call new
     \<and> (\<forall>row. AppendRow row \<in> set new \<longrightarrow> row = header_row \<and> sheet w = Some [])
     \<and> (sheet w' = sheet w \<or> sheet w' = Some [header_row])
     \<and> (sheet w' = Some [header_row] \<and> AppendRow header_row \<in> set new \<longleftrightarrow>
          sheet w = Some []
        \<and> open_error P w (fst svc) (snd svc) = None
        \<and> lastRow_error P (w\<lparr>calls := calls w @ [OpenById (fst svc) (snd svc)]\<rparr>) = None
        \<and> append_error P (w\<lparr>calls := calls w @ [OpenById (fst svc) (snd svc), GetLastRow]\<rparr>)
             header_row = None)"
proof -
  define c1 where "c1 = OpenById (fst svc) (snd svc)"
  consider
      (openfail) e where "open_error P w (fst svc) (snd svc) = Some e"
    | (nosheet) "open_error P w (fst svc) (snd svc) = None" "sheet w = None"
    | (lastfail) rows e where "open_error P w (fst svc) (snd svc) = None" "sheet w = Some rows"
        "lastRow_error P (w\<lparr>calls := calls w @ [c1]\<rparr>) = Some e"
    | (filled) rows where "open_error P w (fst svc) (snd svc) = None" "sheet w = Some rows"
        "lastRow_error P (w\<lparr>calls := calls w @ [c1]\<rparr>) = None" "rows \<noteq> []"
    | (appfail) e where "open_error P w (fst svc) (snd svc) = None" "sheet w = Some []"
        "lastRow_error P (w\<lparr>calls := calls w @ [c1]\<rparr>) = None"
        "append_error P (w\<lparr>calls := calls w @ [c1, GetLastRow]\<rparr>) header_row = Some e"
    | (added) "open_error P w (fst svc) (snd svc) = None" "sheet w = Some []"
        "lastRow_error P (w\<lparr>calls := calls w @ [c1]\<rparr>) = None"
        "append_error P (w\<lparr>calls := calls w @ [c1, GetLastRow]\<rparr>) header_row = None"
    by (cases "open_error P w (fst svc) (snd svc)"; cases "sheet w";
        cases "lastRow_error P (w\<lparr>calls := calls w @ [c1]\<rparr>)";
        cases "append_error P (w\<lparr>calls := calls w @ [c1, GetLastRow]\<rparr>) header_row";
        cases "the (sheet w) = []") auto
  note cs = this
  define Q where "Q = (\<lambda>w' new. ensureHeaders P svc w = (Return (), w') \<and> calls w' = calls w @ new
     \<and> list_all sink_call new
     \<and> (\<forall>row. AppendRow row \<in> set new \<longrightarrow> row = header_row \<and> sheet w = Some [])
     \<and> (sheet w' = sheet w \<or> sheet w' = Some [header_row])
     \<and> (sheet w' = Some [header_row] \<and> AppendRow header_row \<in> set new \<longleftrightarrow>
          sheet w = Some []
        \<and> open_error P w (fst svc) (snd svc) = None
        \<and> lastRow_error P (w\<lparr>calls := calls w @ [c1]\<rparr>) = None
        \<and> append_error P (w\<lparr>calls := calls w @ [c1, GetLastRow]\<rparr>) header_row = None))"
  from cs have "\<exists>w' new. Q w' new"
  proof cases
    case openfail
    then have "Q (w\<lparr>calls := calls w @ [c1], console := console w @ [Error_getSheet e]\<rparr>) [c1]"
      unfolding Q_def ensureHeaders_cases c1_def by simp
    then show ?thesis by blast
  next
    case nosheet
    then have "Q (w\<lparr>calls := calls w @ [c1]\<rparr>) [c1]"
      unfolding Q_def ensureHeaders_cases c1_def by simp
    then show ?thesis by blast
  next
    case lastfail
    then have "Q (w\<lparr>calls := calls w @ [c1, GetLastRow], console := console w @ [Error_headers e]\<rparr>)
                 [c1, GetLastRow]"
      unfolding Q_def ensureHeaders_cases c1_def by simp
    then show ?thesis by blast
  next
    case filled
    then have "Q (w\<lparr>calls := calls w @ [c1, GetLastRow]\<rparr>) [c1, GetLastRow]"
      unfolding Q_def ensureHeaders_cases c1_def by auto
    then show ?thesis by blast
  next
    case appfail
    then have "Q (w\<lparr>calls := calls w @ [c1, GetLastRow, AppendRow header_row],
                    console := console w @ [Error_headers e]\<rparr>)
                 [c1, GetLastRow, AppendRow header_row]"
      unfolding Q_def ensureHeaders_cases c1_def by simp
    then show ?thesis by blast
  next
    case added
    then have "Q (w\<lparr>calls := calls w @ [c1, GetLastRow, AppendRow header_row],
                    sheet := Some [header_row], console := console w @ [Log_header_added]\<rparr>)
                 [c1, GetLastRow, AppendRow header_row]"
      unfolding Q_def ensureHeaders_cases c1_def by simp
    then show ?thesis by blast
  qed
  then show ?thesis unfolding Q_def c1_def by blast
qed



lemma initializeServices_effect:
  "\<exists>app w1 new. initializeServices P config w = (Return app, w1) \<and> configService app = config
     \<and> calls w1 = calls w @ new \<and> list_all sink_call new
     \<and> (\<forall>row. AppendRow row \<in> set new \<longrightarrow> row = header_row)
     \<and> (\<forall>url p. Fetch url p \<notin> set new)"
proof -
  let ?none = "\<lparr>configService = config,
                 slackService = (if truthy (slackWebhookUrl config) then slackWebhookUrl config else None),
                 sheetsService = None\<rparr>"
  have plain: ?thesis if "initializeServices P config w = (Return ?none, w)"
  proof -
    have "calls w = calls w @ []" "configService ?none = config" by simp_all
    then show ?thesis using that by (metis list.pred_inject(1) empty_iff list.set(1))
  qed
  show ?thesis
  proof (cases "spreadsheetId config")
    case None
    then show ?thesis by (intro plain) (simp add: initializeServices_def ret_def)
  next
    case sid: (Some sid)
    show ?thesis
    proof (cases "sheetName config")
      case None
      then show ?thesis using sid by (intro plain) (simp add: initializeServices_def ret_def)
    next
      case (Some sname)
      show ?thesis
      proof (cases "sid \<noteq> [] \<and> sname \<noteq> []")
        case False
        then show ?thesis using sid Some
          by (intro plain) (auto simp: initializeServices_def ret_def)
      next
        case True
        obtain w' new where e: "ensureHeaders P (sid, sname) w = (Return (), w')"
           "calls w' = calls w @ new" "list_all sink_call new"
           "\<forall>row. AppendRow row \<in> set new \<longrightarrow> row = header_row \<and> sheet w = Some []"
          using ensureHeaders_effect[of P "(sid, sname)" w] by blast
        have f: "\<forall>url p. Fetch url p \<notin> set new"
        proof -
          have "c1 \<in> set [OpenById (fst (sid, sname)) (snd (sid, sname)), GetLastRow, AppendRow header_row]"
            if "c1 \<in> set new" for c1
          proof -
            have "new = [OpenById sid sname] \<or> new = [OpenById sid sname, GetLastRow]
                \<or> new = [OpenById sid sname, GetLastRow, AppendRow header_row]"
              using e(1,2) unfolding ensureHeaders_cases
              by (auto split: option.splits if_splits)
            then show ?thesis using that by auto
          qed
          then show ?thesis by auto
        qed
        let ?app = "\<lparr>configService = config,
                      slackService = (if truthy (slackWebhookUrl config) then slackWebhookUrl config else None),
                      sheetsService = Some (sid, sname)\<rparr>"
        have "initializeServices P config w = (Return ?app, w')"
          using sid Some True e(1)
          by (simp add: initializeServices_def ret_def then_do_def and_then_def)
        moreover have "configService ?app = config" by simp
        ultimately show ?thesis using e(2,3,4) f by blast
      qed
    qed
  qed
qed

lemma check_disabled:
  assumes "\<not> isConfigValid (configService app)"
  shows "checkForNewDonations P app w = (Return (), w\<lparr>console := console w @ [Warn_no_webhook]\<rparr>)"
  using assms by (simp add: checkForNewDonations_def log_line_def)

lemma property_calls_quiet:
  "list_all property_call cs \<Longrightarrow>
     marked_read cs = [] \<and> bodies_read cs = [] \<and> Search \<notin> set cs
     \<and> (\<forall>url p. Fetch url p \<notin> set cs) \<and> (\<forall>row. AppendRow row \<notin> set cs)"
  by (induction cs rule: marked_read.induct) auto

lemma loadConfig_calls:
  assumes "loadConfig P w = (r, w0)"
  shows "\<exists>pc. calls w0 = calls w @ pc \<and> list_all property_call pc
           \<and> console w0 = console w \<and> sheet w0 = sheet w"
proof -
  have "take (length (calls w)) (calls w0) = calls w
      \<and> list_all property_call (drop (length (calls w)) (calls w0))
      \<and> console w0 = console w \<and> sheet w0 = sheet w"
    using assms
    by (auto simp: loadConfig_def getProperty_def action_defs split: option.splits sum.splits)
  then have "calls w0 = calls w @ drop (length (calls w)) (calls w0)
      \<and> list_all property_call (drop (length (calls w)) (calls w0))
      \<and> console w0 = console w \<and> sheet w0 = sheet w"
    by (metis append_take_drop_id)
  then show ?thesis by blast
qed

lemma main_after_load:
  "loadConfig P w = (Return config, w0) \<Longrightarrow>
     main P w = and_then (initializeServices P config) (checkForNewDonations P) w0"
  by (simp add: main_def new_DonationNotifierApp_def and_then_def split: prod.splits outcome.splits)

lemma main_load_throws:
  "loadConfig P w = (Throw e, w0) \<Longrightarrow> main P w = (Throw e, w0)"
  by (simp add: main_def new_DonationNotifierApp_def and_then_def)

lemma disabled_run:
  assumes "\<not> isConfigValid config"
  shows "\<exists>w' new. and_then (initializeServices P config) (checkForNewDonations P) w = (Return (), w')
             \<and> calls w' = calls w @ new
             \<and> Search \<notin> set new \<and> bodies_read new = [] \<and> marked_read new = []
             \<and> (\<forall>url p. Fetch url p \<notin> set new)
             \<and> (\<forall>row. AppendRow row \<in> set new \<longrightarrow> row = header_row)"
proof -
  obtain app' w1 new where i: "initializeServices P config w = (Return app', w1)"
      "configService app' = config" "calls w1 = calls w @ new" "list_all sink_call new"
      "\<forall>row. AppendRow row \<in> set new \<longrightarrow> row = header_row" "\<forall>url p. Fetch url p \<notin> set new"
    using initializeServices_effect by blast
  have "and_then (initializeServices P config) (checkForNewDonations P) w
          = (Return (), w1\<lparr>console := console w1 @ [Warn_no_webhook]\<rparr>)"
    using i(1,2) assms by (simp add: and_then_def check_disabled)
  moreover have "calls (w1\<lparr>console := console w1 @ [Warn_no_webhook]\<rparr>) = calls w @ new"
    using i(3) by simp
  ultimately show ?thesis
    using sink_calls_quiet[OF i(4)] i(5,6) by blast
qed

text \<open>
  Claim C2. When the webhook URL is absent (or empty), \<open>checkForNewDonations\<close> only logs
  the warning: the calls and the sheet are as before. For the whole run this means no
  search, no body read, no webhook post and no mark-read; the only row the spreadsheet
  can receive is the header row, from the construction of the sheets service. This holds
  for the run from any loaded configuration, and so for the global function whenever the
  script properties give such a configuration.
\<close>

theorem no_webhook_no_processing:
  assumes "slackWebhookUrl config = None \<or> slackWebhookUrl config = Some []"
  shows "(configService app = config \<longrightarrow>
            checkForNewDonations P app w =
              (Return (), w\<lparr>console := console w @ [Warn_no_webhook]\<rparr>))
       \<and> (\<exists>w' new. and_then (initializeServices P config) (checkForNewDonations P) w
                       = (Return (), w')
             \<and> calls w' = calls w @ new
             \<and> Search \<notin> set new \<and> bodies_read new = [] \<and> marked_read new = []
             \<and> (\<forall>url p. Fetch url p \<notin> set new)
             \<and> (\<forall>row. AppendRow row \<in> set new \<longrightarrow> row = header_row))
       \<and> (\<forall>w0. loadConfig P w = (Return config, w0) \<longrightarrow>
            (\<exists>w' new. main P w = (Return (), w') \<and> calls w' = calls w @ new
               \<and> Search \<notin> set new \<and> bodies_read new = [] \<and> marked_read new = []
               \<and> (\<forall>url p. Fetch url p \<notin> set new)
               \<and> (\<forall>row. AppendRow row \<in> set new \<longrightarrow> row = header_row)))"
proof (intro conjI allI impI)
  have inv: "\<not> isConfigValid config" using assms by (auto simp: isConfigValid_def truthy_def)
  {
    assume "configService app = config"
    then show "checkForNewDonations P app w =
              (Return (), w\<lparr>console := console w @ [Warn_no_webhook]\<rparr>)"
      using inv check_disabled by blast
  }
  show "\<exists>w' new. and_then (initializeServices P config) (checkForNewDonations P) w
                       = (Return (), w')
             \<and> calls w' = calls w @ new
             \<and> Search \<notin> set new \<and> bodies_read new = [] \<and> marked_read new = []
             \<and> (\<forall>url p. Fetch url p \<notin> set new)
             \<and> (\<forall>row. AppendRow row \<in> set new \<longrightarrow> row = header_row)"
    using inv by (rule disabled_run)
  fix w0 assume l: "loadConfig P w = (Return config, w0)"
  obtain pc where pc: "calls w0 = calls w @ pc" "list_all property_call pc"
    using loadConfig_calls[OF l] by blast
  obtain w' new where d: "and_then (initializeServices P config) (checkForNewDonations P) w0
                       = (Return (), w')" "calls w' = calls w0 @ new"
      "Search \<notin> set new" "bodies_read new = []" "marked_read new = []"
      "\<forall>url p. Fetch url p \<notin> set new" "\<forall>row. AppendRow row \<in> set new \<longrightarrow> row = header_row"
    using disabled_run[OF inv] by blast
  note q = property_calls_quiet[OF pc(2)]
  show "\<exists>w' new. main P w = (Return (), w') \<and> calls w' = calls w @ new
               \<and> Search \<notin> set new \<and> bodies_read new = [] \<and> marked_read new = []
               \<and> (\<forall>url p. Fetch url p \<notin> set new)
               \<and> (\<forall>row. AppendRow row \<in> set new \<longrightarrow> row = header_row)"
  proof (intro exI conjI)
    show "main P w = (Return (), w')" using main_after_load[OF l] d(1) by simp
    show "calls w' = calls w @ (pc @ new)" using pc(1) d(2) by simp
    show "Search \<notin> set (pc @ new)" using q d(3) by simp
    show "bodies_read (pc @ new) = []" using q d(4) by (simp add: bodies_read_append)
    show "marked_read (pc @ new) = []" using q d(5) by (simp add: marked_read_append)
    show "\<forall>url p. Fetch url p \<notin> set (pc @ new)" using q d(6) by simp
    show "\<forall>row. AppendRow row \<in> set (pc @ new) \<longrightarrow> row = header_row" using q d(7) by simp
  qed
qed

theorem no_webhook_no_processing_witness:
  "main sheets_only_store empty_sheet_world =
     (Return (), \<lparr>calls = [GetScriptProperties, GetProperty (str ''SLACK_WEBHOOK_URL''),
                            GetProperty (str ''GOOGLE_SHEETS_ID''),
                            GetProperty (str ''GOOGLE_SHEETS_NAME''),
                            OpenById (str ''sid'') (str ''log''), GetLastRow,
                            AppendRow header_row],
                   console = [Log_header_added, Warn_no_webhook], sheet = Some [header_row]\<rparr>)
   \<and> and_then (initializeServices reliable sheets_only) (checkForNewDonations reliable)
        empty_sheet_world =
     (Return (), \<lparr>calls = [OpenById (str ''sid'') (str ''log''), GetLastRow, AppendRow header_row],
                   console = [Log_header_added, Warn_no_webhook], sheet = Some [header_row]\<rparr>)
   \<and> checkForNewDonations reliable
        \<lparr>configService = sheets_only, slackService = None,
           sheetsService = Some (str ''sid'', str ''log'')\<rparr> empty_sheet_world
      = (Return (), \<lparr>calls = [], console = [Warn_no_webhook], sheet = Some []\<rparr>)"
proof -
  have a: "slackWebhookUrl sheets_only = None \<or> slackWebhookUrl sheets_only = Some []"
    by (simp add: sheets_only_def)
  have m: "and_then (initializeServices reliable sheets_only) (checkForNewDonations reliable)
        empty_sheet_world =
     (Return (), \<lparr>calls = [OpenById (str ''sid'') (str ''log''), GetLastRow, AppendRow header_row],
                   console = [Log_header_added, Warn_no_webhook], sheet = Some [header_row]\<rparr>)"
    by (simp add: initializeServices_def checkForNewDonations_def isConfigValid_def
          truthy_def sheets_only_def str_def world_defs)
  have g: "main sheets_only_store empty_sheet_world =
     (Return (), \<lparr>calls = [GetScriptProperties, GetProperty (str ''SLACK_WEBHOOK_URL''),
                            GetProperty (str ''GOOGLE_SHEETS_ID''),
                            GetProperty (str ''GOOGLE_SHEETS_NAME''),
                            OpenById (str ''sid'') (str ''log''), GetLastRow,
                            AppendRow header_row],
                   console = [Log_header_added, Warn_no_webhook], sheet = Some [header_row]\<rparr>)"
    by (simp add: main_def new_DonationNotifierApp_def loadConfig_def getProperty_def
          sheets_only_store_def initializeServices_def checkForNewDonations_def
          isConfigValid_def truthy_def str_def world_defs)
  from no_webhook_no_processing[OF a, of
          "\<lparr>configService = sheets_only, slackService = None,
             sheetsService = Some (str ''sid'', str ''log'')\<rparr>" reliable empty_sheet_world]
  have "checkForNewDonations reliable
        \<lparr>configService = sheets_only, slackService = None,
           sheetsService = Some (str ''sid'', str ''log'')\<rparr> empty_sheet_world
      = (Return (), empty_sheet_world\<lparr>console := console empty_sheet_world @ [Warn_no_webhook]\<rparr>)"
    by simp
  then show ?thesis using m g by (simp add: empty_sheet_world_def)
qed

lemma process_message_Return: "fst (process_message cb m w) = Return ()"
  by (simp add: process_message_def try_catch_def log_line_def split: prod.splits outcome.splits)

lemma for_each_step:
  "for_each (m # ms) (process_message cb) w
     = for_each ms (process_message cb) (snd (process_message cb m w))"
  using process_message_Return[of cb m w]
  by (cases "process_message cb m w") (simp add: then_do_def and_then_def)

lemma for_each_Return: "fst (for_each ms (process_message cb) w) = Return ()"
proof (induction ms arbitrary: w)
  case Nil
  show ?case by (simp add: ret_def)
next
  case (Cons m ms)
  show ?case unfolding for_each_step by (rule Cons.IH)
qed

lemma processNewDonations_search_fails:
  "search_result P w = Inl e \<Longrightarrow>
     processNewDonations P cb w = (Throw e, w\<lparr>calls := calls w @ [Search]\<rparr>)"
  by (simp add: processNewDonations_def gmail_search_def and_then_def)

lemma processNewDonations_search_ok:
  "search_result P w = Inr threads \<Longrightarrow>
     processNewDonations P cb w
       = for_each (concat threads) (process_message cb) (w\<lparr>calls := calls w @ [Search]\<rparr>)"
  by (simp add: processNewDonations_def gmail_search_def and_then_def)

lemma checkForNewDonations_Return: "fst (checkForNewDonations P app w) = Return ()"
  by (simp add: checkForNewDonations_def action_defs split: prod.splits outcome.splits)

lemma run_Return:
  "fst (and_then (initializeServices P config) (checkForNewDonations P) w) = Return ()"
proof -
  obtain app w1 where "initializeServices P config w = (Return app, w1)"
    using initializeServices_returns by blast
  then show ?thesis by (simp add: and_then_def checkForNewDonations_Return)
qed

lemma main_throws_iff: "fst (main P w) = Throw e \<longleftrightarrow> fst (loadConfig P w) = Throw e"
proof (cases "loadConfig P w")
  case (Pair r w0)
  show ?thesis
  proof (cases r)
    case (Return config)
    then have "fst (main P w) = Return ()"
      using Pair main_after_load[of P w config w0] run_Return by simp
    then show ?thesis using Pair Return by simp
  next
    case (Throw e')
    then show ?thesis using Pair main_load_throws[of P w e' w0] by simp
  qed
qed

lemma processDonation_calls:
  "\<exists>w' new. processDonation P app details messageId w = (Return (), w')
     \<and> calls w' = calls w @ new \<and> bodies_read new = []"
proof -
  define w0 where "w0 = w\<lparr>console := console w @ [Log_processing details]\<rparr>"
  obtain r new lines sh where s: "sinks P app details w0 =
       (r, w0\<lparr>calls := calls w0 @ new, console := console w0 @ lines, sheet := sh\<rparr>)"
       "list_all sink_call new"
    using sinks_effect by blast
  define w1 where "w1 = w0\<lparr>calls := calls w0 @ new, console := console w0 @ lines, sheet := sh\<rparr>"
  define after where "after = (if r = Return () then mark_calls P w1 messageId else [])"
  have s1: "sinks P app details (w\<lparr>console := console w @ [Log_processing details]\<rparr>) = (r, w1)"
    using s(1) unfolding w1_def w0_def by simp
  obtain lines' where p: "processDonation P app details messageId w =
     (Return (), w1\<lparr>calls := calls w1 @ after, console := console w1 @ lines'\<rparr>)"
    using processDonation_effect[OF s1] unfolding after_def by blast
  have "bodies_read (new @ after) = []"
    using sink_calls_quiet[OF s(2)]
    by (simp add: bodies_read_append after_def marked_read_mark_calls)
  moreover have "calls (w1\<lparr>calls := calls w1 @ after, console := console w1 @ lines'\<rparr>)
                   = calls w @ (new @ after)"
    by (simp add: w1_def w0_def)
  ultimately show ?thesis using p by blast
qed

lemma process_message_reads:
  "\<exists>w' new. process_message (processDonation P app) m w = (Return (), w')
     \<and> calls w' = calls w @ new \<and> bodies_read new = [msg_id m]"
proof -
  define w1 where "w1 = w\<lparr>calls := calls w @ [GetPlainBody (msg_id m)]\<rparr>"
  have simple: ?thesis if "process_message (processDonation P app) m w
      = (Return (), w1\<lparr>console := console w1 @ [entry]\<rparr>)" for entry
  proof -
    have "calls (w1\<lparr>console := console w1 @ [entry]\<rparr>) = calls w @ [GetPlainBody (msg_id m)]"
         "bodies_read [GetPlainBody (msg_id m)] = [msg_id m]"
      by (simp_all add: w1_def)
    then show ?thesis using that by blast
  qed
  show ?thesis
  proof (cases "msg_body m")
    case (Inl e)
    then show ?thesis
      by (intro simple[of "Error_message e"])
         (simp add: process_message_def getPlainBody_def try_catch_def and_then_def log_line_def
            w1_def)
  next
    case (Inr body)
    then have g: "getPlainBody m w = (Return body, w1)"
      by (simp add: getPlainBody_def w1_def)
    show ?thesis
    proof (cases "extractDonationDetails body")
      case (Inl e)
      then show ?thesis using g
        by (intro simple[of "Error_message e"])
           (simp add: process_message_def try_catch_def and_then_def log_line_def throw_def)
    next
      case found: (Inr r)
      show ?thesis
      proof (cases r)
        case None
        then show ?thesis using g found
          by (intro simple[of "Warn_extract_failed (msg_id m)"])
             (simp add: process_message_def try_catch_def and_then_def log_line_def)
      next
        case (Some details)
        obtain w' new where p: "processDonation P app details (msg_id m) w1 = (Return (), w')"
            "calls w' = calls w1 @ new" "bodies_read new = []"
          using processDonation_calls by blast
        have "process_message (processDonation P app) m w = (Return (), w')"
          using g found Some p(1) by (simp add: process_message_def try_catch_def and_then_def)
        moreover have "calls w' = calls w @ (GetPlainBody (msg_id m) # new)"
          using p(2) by (simp add: w1_def)
        moreover have "bodies_read (GetPlainBody (msg_id m) # new) = [msg_id m]"
          using p(3) by simp
        ultimately show ?thesis by blast
      qed
    qed
  qed
qed

lemma for_each_reads:
  "\<exists>w' new. for_each ms (process_message (processDonation P app)) w = (Return (), w')
     \<and> calls w' = calls w @ new \<and> bodies_read new = map msg_id ms"
proof (induction ms arbitrary: w)
  case Nil
  have "for_each [] (process_message (processDonation P app)) w = (Return (), w)"
       "calls w = calls w @ []" "bodies_read [] = map msg_id []"
    by (simp_all add: ret_def)
  then show ?case by blast
next
  case (Cons m ms)
  obtain w1 new1 where a: "process_message (processDonation P app) m w = (Return (), w1)"
      "calls w1 = calls w @ new1" "bodies_read new1 = [msg_id m]"
    using process_message_reads by blast
  obtain w2 new2 where b: "for_each ms (process_message (processDonation P app)) w1 = (Return (), w2)"
      "calls w2 = calls w1 @ new2" "bodies_read new2 = map msg_id ms"
    using Cons.IH by blast
  have "for_each (m # ms) (process_message (processDonation P app)) w = (Return (), w2)"
    using a(1) b(1) by (simp add: then_do_def and_then_def)
  moreover have "calls w2 = calls w @ (new1 @ new2)" using a(2) b(2) by simp
  moreover have "bodies_read (new1 @ new2) = map msg_id (m # ms)"
    using a(3) b(3) by (simp add: bodies_read_append)
  ultimately show ?case by blast
qed

lemma process_message_body_throws:
  "msg_body m = Inl e \<Longrightarrow>
     process_message cb m w =
       (Return (), w\<lparr>calls := calls w @ [GetPlainBody (msg_id m)],
                     console := console w @ [Error_message e]\<rparr>)"
  by (simp add: process_message_def getPlainBody_def try_catch_def and_then_def log_line_def)

lemma process_message_callback_throws:
  assumes "msg_body m = Inr body" "extractDonationDetails body = Inr (Some details)"
          "cb details (msg_id m) (w\<lparr>calls := calls w @ [GetPlainBody (msg_id m)]\<rparr>) = (Throw e, w2)"
  shows "process_message cb m w = (Return (), w2\<lparr>console := console w2 @ [Error_message e]\<rparr>)"
  using assms
  by (simp add: process_message_def getPlainBody_def try_catch_def and_then_def log_line_def)

lemma check_search_fails:
  assumes "isConfigValid (configService app)"
          "search_result P (w\<lparr>console := console w @ [Log_check_start]\<rparr>) = Inl e"
  shows "checkForNewDonations P app w =
           (Return (), w\<lparr>calls := calls w @ [Search],
                         console := console w @ [Log_check_start, Error_check e]\<rparr>)"
  using assms
  by (simp add: checkForNewDonations_def processNewDonations_search_fails action_defs)

lemma check_search_ok:
  assumes "isConfigValid (configService app)"
          "search_result P (w\<lparr>console := console w @ [Log_check_start]\<rparr>) = Inr threads"
  shows "\<exists>w' new. checkForNewDonations P app w = (Return (), w')
           \<and> calls w' = calls w @ Search # new
           \<and> bodies_read new = map msg_id (concat threads)"
proof -
  define w0 where "w0 = w\<lparr>console := console w @ [Log_check_start]\<rparr>"
  obtain w1 new where f: "for_each (concat threads) (process_message (processDonation P app))
        (w0\<lparr>calls := calls w0 @ [Search]\<rparr>) = (Return (), w1)"
      "calls w1 = calls (w0\<lparr>calls := calls w0 @ [Search]\<rparr>) @ new"
      "bodies_read new = map msg_id (concat threads)"
    using for_each_reads by blast
  have "processNewDonations P (processDonation P app) w0 = (Return (), w1)"
    using assms(2) f(1) unfolding w0_def by (simp add: processNewDonations_search_ok)
  then have "checkForNewDonations P app w = (Return (), w1\<lparr>console := console w1 @ [Log_check_done]\<rparr>)"
    using assms(1) unfolding w0_def by (simp add: checkForNewDonations_def action_defs)
  moreover have "calls (w1\<lparr>console := console w1 @ [Log_check_done]\<rparr>) = calls w @ Search # new"
    using f(2) by (simp add: w0_def)
  ultimately show ?thesis using f(3) by blast
qed

text \<open>
  Claim C8, amended. The processing of one message never throws, whatever the callback
  does: a failure to read the body, and a throw of the callback, are logged, and the
  effects until then stay. The loop therefore goes on with the remaining messages from the
  world the failed message left. The method \<open>checkForNewDonations\<close> never throws, and
  neither does the run from a loaded configuration; a failing search is logged, and after
  a successful search the body of every message found is read, in order. The global
  function throws exactly when the loading of the configuration throws.
\<close>

theorem failures_are_isolated:
  "fst (process_message cb m w) = Return ()
   \<and> (msg_body m = Inl e \<longrightarrow>
        process_message cb m w =
          (Return (), w\<lparr>calls := calls w @ [GetPlainBody (msg_id m)],
                        console := console w @ [Error_message e]\<rparr>))
   \<and> (msg_body m = Inr body \<and> extractDonationDetails body = Inr (Some details)
        \<and> cb details (msg_id m) (w\<lparr>calls := calls w @ [GetPlainBody (msg_id m)]\<rparr>) = (Throw e, w2)
       \<longrightarrow> process_message cb m w = (Return (), w2\<lparr>console := console w2 @ [Error_message e]\<rparr>))
   \<and> for_each (m # ms) (process_message cb) w
        = for_each ms (process_message cb) (snd (process_message cb m w))
   \<and> fst (checkForNewDonations P app w) = Return ()
   \<and> fst (and_then (initializeServices P config) (checkForNewDonations P) w) = Return ()
   \<and> ((fst (main P w) = Throw e') = (fst (loadConfig P w) = Throw e'))
   \<and> (isConfigValid (configService app)
        \<and> search_result P (w\<lparr>console := console w @ [Log_check_start]\<rparr>) = Inl e
       \<longrightarrow> checkForNewDonations P app w =
             (Return (), w\<lparr>calls := calls w @ [Search],
                           console := console w @ [Log_check_start, Error_check e]\<rparr>))
   \<and> (isConfigValid (configService app)
        \<and> search_result P (w\<lparr>console := console w @ [Log_check_start]\<rparr>) = Inr threads
       \<longrightarrow> (\<exists>w' new. checkForNewDonations P app w = (Return (), w')
               \<and> calls w' = calls w @ Search # new
               \<and> bodies_read new = map msg_id (concat threads)))"
proof (intro conjI impI)
  show "fst (process_message cb m w) = Return ()" by (rule process_message_Return)
  show "for_each (m # ms) (process_message cb) w
        = for_each ms (process_message cb) (snd (process_message cb m w))"
    by (rule for_each_step)
  show "fst (checkForNewDonations P app w) = Return ()" by (rule checkForNewDonations_Return)
  show "fst (and_then (initializeServices P config) (checkForNewDonations P) w) = Return ()"
    by (rule run_Return)
  show "(fst (main P w) = Throw e') = (fst (loadConfig P w) = Throw e')"
    by (rule main_throws_iff)
next
  assume "msg_body m = Inl e"
  then show "process_message cb m w =
          (Return (), w\<lparr>calls := calls w @ [GetPlainBody (msg_id m)],
                        console := console w @ [Error_message e]\<rparr>)"
    by (rule process_message_body_throws)
next
  assume "msg_body m = Inr body \<and> extractDonationDetails body = Inr (Some details)
        \<and> cb details (msg_id m) (w\<lparr>calls := calls w @ [GetPlainBody (msg_id m)]\<rparr>) = (Throw e, w2)"
  then show "process_message cb m w = (Return (), w2\<lparr>console := console w2 @ [Error_message e]\<rparr>)"
    using process_message_callback_throws by blast
next
  assume "isConfigValid (configService app)
        \<and> search_result P (w\<lparr>console := console w @ [Log_check_start]\<rparr>) = Inl e"
  then show "checkForNewDonations P app w =
             (Return (), w\<lparr>calls := calls w @ [Search],
                           console := console w @ [Log_check_start, Error_check e]\<rparr>)"
    using check_search_fails by blast
next
  assume "isConfigValid (configService app)
        \<and> search_result P (w\<lparr>console := console w @ [Log_check_start]\<rparr>) = Inr threads"
  then show "\<exists>w' new. checkForNewDonations P app w = (Return (), w')
               \<and> calls w' = calls w @ Search # new
               \<and> bodies_read new = map msg_id (concat threads)"
    using check_search_ok by blast
qed

lemmas loop_defs = checkForNewDonations_def processNewDonations_def gmail_search_def
  process_message_def getPlainBody_def isConfigValid_def truthy_def bad_message_def
  good_message_def sample_body_def

theorem failures_are_isolated_witness:
  "checkForNewDonations (reliable\<lparr>search_result := \<lambda>w. Inr [[bad_message, good_message]]\<rparr>)
       both_sinks empty_sheet_world
     = (Return (),
        \<lparr>calls = [Search, GetPlainBody (str ''m1''), GetPlainBody (str ''m2''),
                  Fetch (str ''https://hook'')
                    \<lparr>payload_date = str ''2024/03/05 09:07:01'', payload_amount = [20870],
                       payload_frequency = str ''monthly''\<rparr>,
                  OpenById (str ''sid'') (str ''log''),
                  AppendRow [StrCell (str ''2024/03/05 09:07:01''), StrCell (str ''Taro Yamada''),
                             NumCell (Num 12345), StrCell (str ''monthly'')],
                  GetMessageById (str ''m2''), MarkRead (str ''m2'')],
          console = [Log_check_start, Error_message (PlatformError (str ''gone'')),
                     Log_processing sample_details,
                     Log_slack_sent (str ''2024/03/05 09:07:01'') (Num 12345) (str ''monthly''),
                     Log_recorded (str ''Taro Yamada'') (Num 12345),
                     Log_processed (str ''m2''), Log_check_done],
          sheet = Some [[StrCell (str ''2024/03/05 09:07:01''), StrCell (str ''Taro Yamada''),
                         NumCell (Num 12345), StrCell (str ''monthly'')]]\<rparr>)
   \<and> checkForNewDonations (reliable\<lparr>search_result := \<lambda>w. Inl (PlatformError (str ''down''))\<rparr>)
       both_sinks empty_sheet_world
     = (Return (), \<lparr>calls = [Search],
                     console = [Log_check_start, Error_check (PlatformError (str ''down''))],
                     sheet = Some []\<rparr>)"
proof -
  define P1 where "P1 = reliable\<lparr>search_result := \<lambda>w. Inl (PlatformError (str ''down''))\<rparr>"
  have v: "isConfigValid (configService both_sinks)"
    by (simp add: isConfigValid_def truthy_def both_sinks_def str_def)
  have s: "search_result P1 (empty_sheet_world\<lparr>console := console empty_sheet_world @ [Log_check_start]\<rparr>)
             = Inl (PlatformError (str ''down''))"
    by (simp add: P1_def)
  have 2: "checkForNewDonations P1 both_sinks empty_sheet_world
     = (Return (), \<lparr>calls = [Search],
                     console = [Log_check_start, Error_check (PlatformError (str ''down''))],
                     sheet = Some []\<rparr>)"
    using failures_are_isolated[of _ _ empty_sheet_world "PlatformError (str ''down'')" _ _ _ _
            P1 both_sinks] v s
    by (simp add: empty_sheet_world_def)
  have 1: "checkForNewDonations (reliable\<lparr>search_result := \<lambda>w. Inr [[bad_message, good_message]]\<rparr>)
       both_sinks empty_sheet_world
     = (Return (),
        \<lparr>calls = [Search, GetPlainBody (str ''m1''), GetPlainBody (str ''m2''),
                  Fetch (str ''https://hook'')
                    \<lparr>payload_date = str ''2024/03/05 09:07:01'', payload_amount = [20870],
                       payload_frequency = str ''monthly''\<rparr>,
                  OpenById (str ''sid'') (str ''log''),
                  AppendRow [StrCell (str ''2024/03/05 09:07:01''), StrCell (str ''Taro Yamada''),
                             NumCell (Num 12345), StrCell (str ''monthly'')],
                  GetMessageById (str ''m2''), MarkRead (str ''m2'')],
          console = [Log_check_start, Error_message (PlatformError (str ''gone'')),
                     Log_processing sample_details,
                     Log_slack_sent (str ''2024/03/05 09:07:01'') (Num 12345) (str ''monthly''),
                     Log_recorded (str ''Taro Yamada'') (Num 12345),
                     Log_processed (str ''m2''), Log_check_done],
          sheet = Some [[StrCell (str ''2024/03/05 09:07:01''), StrCell (str ''Taro Yamada''),
                         NumCell (Num 12345), StrCell (str ''monthly'')]]\<rparr>)"
    by (simp add: loop_defs eval_defs world_defs)
  show ?thesis using 1 2 unfolding P1_def by simp
qed

text \<open>
  The claim as it was stated, that no failure escapes the entry point, fails when the
  script properties cannot be opened: the constructor throws, outside any \<open>try\<close>.
\<close>

theorem entry_point_throws_counterexample:
  "main broken_store empty_world =
     (Throw (PlatformError (str ''store'')),
      \<lparr>calls = [GetScriptProperties], console = [], sheet = None\<rparr>)"
  by (simp add: main_def new_DonationNotifierApp_def loadConfig_def broken_store_def
        reliable_def empty_world_def action_defs)

end
